theory Spec2Isabelle
  imports Main "HOL-Library.Word"
begin

section \<open>Entity model\<close>

text \<open>
  Modelled from the spec: \<open>osmium::Location\<close> is declared in \<open>osmium/osm/location.hpp\<close>,
  which is not among the sources at hand. A Location is a (longitude, latitude) pair or the
  distinguished undefined sentinel that the default constructor \<open>osmium::Location()\<close>
  gives; \<open>!=\<close> is value inequality. Coordinates are kept as integers (fixed point); the
  examples below write them in tenths of a degree.
\<close>

datatype location = undefined_location | Location int int

text \<open>\<open>osmium::NodeRef\<close>: an identifier plus a Location, read with \<open>location()\<close>.\<close>

datatype node_ref = NodeRef (ref: int) (location: location)

text \<open>\<open>osmium::Node\<close>, as far as \<open>create_point\<close> reads it.\<close>

datatype node = Node (node_id: int) (node_location: location)

text \<open>
  \<open>osmium::item_type\<close>: the five values the sources name, and every other value of the
  enumeration (tag lists, areas, changesets, ...) under \<open>item_type_other\<close>.
\<close>

datatype item_type =
    item_type_node
  | item_type_way
  | item_type_relation
  | item_type_outer_ring
  | item_type_inner_ring
  | item_type_other nat

text \<open>
  An item of an Area's item collection: its type tag and, for a ring, its node references.
  \<open>create_multipolygon\<close> views every item as an \<open>OuterRing\<close> before it looks at the tag;
  the nodes of an item that is no ring are never read.
\<close>

datatype item = Item (ty: item_type) (ring_nodes: "node_ref list")

type_synonym area = "item list"

text \<open>
  Modelled from the spec: \<open>osmium::DiffObject\<close> (\<open>osmium/osm/diff_object.hpp\<close>, not among
  the sources at hand) is a previous and a current revision of one entity with a kind tag.
\<close>

datatype 'o diff_object = DiffObject (diff_type: item_type) (prev: 'o) (curr: 'o)

section \<open>Exceptions and stateful calls\<close>

datatype error =
    invalid_location
  | geometry_error string
  | runtime_error string

text \<open>
  A call on an object with state \<open>'s\<close>: it returns a value or throws, and in both cases
  leaves the object in a new state (a C++ exception does not undo what was done before it).
\<close>

type_synonym ('a, 's) action = "'s \<Rightarrow> (error + 'a) \<times> 's"

definition ok :: "'a \<Rightarrow> ('a, 's) action" where
  "ok a s = (Inr a, s)"

definition throw :: "error \<Rightarrow> ('a, 's) action" where
  "throw e s = (Inl e, s)"

definition and_then :: "('a, 's) action \<Rightarrow> ('a \<Rightarrow> ('b, 's) action) \<Rightarrow> ('b, 's) action" where
  "and_then m f s = (case m s of (Inl e, s') \<Rightarrow> (Inl e, s') | (Inr a, s') \<Rightarrow> f a s')"

definition seq :: "(unit, 's) action \<Rightarrow> ('b, 's) action \<Rightarrow> ('b, 's) action" where
  "seq m k = and_then m (\<lambda>_. k)"

section \<open>The geometry capability contract\<close>

text \<open>
  The template parameter \<open>G\<close> of \<open>GeometryFactory<G, T>\<close>: the operations the engine calls
  through \<open>static_cast<G*>(this)\<close>, on a backend with state \<open>'s\<close> and with the point,
  linestring and multipolygon types \<open>'p\<close>, \<open>'l\<close>, \<open>'m\<close> of \<open>T\<close>.
\<close>

record ('s, 'p, 'l, 'm) backend =
  make_point :: "location \<Rightarrow> ('p, 's) action"
  linestring_start :: "(unit, 's) action"
  linestring_add_location :: "location \<Rightarrow> (unit, 's) action"
  linestring_finish :: "('l, 's) action"
  multipolygon_start :: "(unit, 's) action"
  multipolygon_outer_ring_start :: "(unit, 's) action"
  multipolygon_outer_ring_finish :: "(unit, 's) action"
  multipolygon_inner_ring_start :: "(unit, 's) action"
  multipolygon_inner_ring_finish :: "(unit, 's) action"
  multipolygon_add_location :: "location \<Rightarrow> (unit, 's) action"
  multipolygon_finish :: "('m, 's) action"

section \<open>The geometry construction engine (factory.hpp)\<close>

datatype use_nodes = use_nodes_unique | use_nodes_all

datatype direction = direction_backward | direction_forward

subsection \<open>Points\<close>

definition create_point :: "('s, 'p, 'l, 'm) backend \<Rightarrow> location \<Rightarrow> ('p, 's) action" where
  "create_point G loc = make_point G loc"

definition create_point_node :: "('s, 'p, 'l, 'm) backend \<Rightarrow> node \<Rightarrow> ('p, 's) action" where
  "create_point_node G nd = create_point G (node_location nd)"

definition create_point_node_ref ::
  "('s, 'p, 'l, 'm) backend \<Rightarrow> node_ref \<Rightarrow> ('p, 's) action" where
  "create_point_node_ref G way_node = create_point G (location way_node)"

subsection \<open>Linestrings\<close>

text \<open>The range-for loop of the \<open>unique\<close>, \<open>forward\<close> branch; \<open>last_location\<close> is its local.\<close>

fun linestring_forward_unique ::
  "('s, 'p, 'l, 'm) backend \<Rightarrow> location \<Rightarrow> node_ref list \<Rightarrow> (unit, 's) action" where
  "linestring_forward_unique G last_location [] = ok ()"
| "linestring_forward_unique G last_location (wn # wnl) =
     (if last_location \<noteq> location wn
      then seq (linestring_add_location G (location wn))
               (linestring_forward_unique G (location wn) wnl)
      else linestring_forward_unique G last_location wnl)"

text \<open>
  The loop \<open>for (int i = wnl.size()-1; i >= 0; --i)\<close> of the \<open>unique\<close>, \<open>backward\<close> branch.
  The index is a C++ \<open>int\<close>; inside the loop it is between 0 and its first value, so
  \<open>--i\<close> never leaves the range of \<open>int\<close> and the index is kept as an integer here.
\<close>

function linestring_backward_unique ::
  "('s, 'p, 'l, 'm) backend \<Rightarrow> node_ref list \<Rightarrow> int \<Rightarrow> location \<Rightarrow> (unit, 's) action" where
  "linestring_backward_unique G wnl i last_location =
     (if 0 \<le> i
      then (if last_location \<noteq> location (wnl ! nat i)
            then seq (linestring_add_location G (location (wnl ! nat i)))
                     (linestring_backward_unique G wnl (i - 1) (location (wnl ! nat i)))
            else linestring_backward_unique G wnl (i - 1) last_location)
      else ok ())"
  by pat_completeness auto
termination
  by (relation "measure (\<lambda>(G, wnl, i, last_location). nat (i + 1))") auto

declare linestring_backward_unique.simps [simp del]

fun linestring_forward_all ::
  "('s, 'p, 'l, 'm) backend \<Rightarrow> node_ref list \<Rightarrow> (unit, 's) action" where
  "linestring_forward_all G [] = ok ()"
| "linestring_forward_all G (wn # wnl) =
     seq (linestring_add_location G (location wn)) (linestring_forward_all G wnl)"

function linestring_backward_all ::
  "('s, 'p, 'l, 'm) backend \<Rightarrow> node_ref list \<Rightarrow> int \<Rightarrow> (unit, 's) action" where
  "linestring_backward_all G wnl i =
     (if 0 \<le> i
      then seq (linestring_add_location G (location (wnl ! nat i)))
               (linestring_backward_all G wnl (i - 1))
      else ok ())"
  by pat_completeness auto
termination
  by (relation "measure (\<lambda>(G, wnl, i). nat (i + 1))") auto

declare linestring_backward_all.simps [simp del]

text \<open>
  The first value of the index, \<open>int i = wnl.size()-1\<close>: the size is unsigned, the
  subtraction wraps around for an empty list, and the conversion to the 32-bit \<open>int\<close> keeps
  the low 32 bits, read as two's complement. It is below the size of the list for every
  list (\<open>start_index_in_range\<close> below), so each \<open>wnl[i]\<close> the loops read is a node of the
  list, and it is the last index for a list of at most \<open>2 ^ 31\<close> nodes
  (\<open>start_index_small\<close>).
\<close>

definition start_index :: "node_ref list \<Rightarrow> int" where
  "start_index wnl = sint (word_of_nat (length wnl) - 1 :: 32 word)"

text \<open>
  \<open>create_linestring\<close> on a list of way nodes. The default arguments of the C++ function
  (\<open>unique\<close>, \<open>forward\<close>) are written out at each call here.
\<close>

definition create_linestring ::
  "('s, 'p, 'l, 'm) backend \<Rightarrow> node_ref list \<Rightarrow> use_nodes \<Rightarrow> direction \<Rightarrow> ('l, 's) action" where
  "create_linestring G wnl un dir =
     seq (linestring_start G)
      (seq (if un = use_nodes_unique
            then (case dir of
                    direction_forward \<Rightarrow> linestring_forward_unique G undefined_location wnl
                  | direction_backward \<Rightarrow>
                      linestring_backward_unique G wnl (start_index wnl) undefined_location)
            else (case dir of
                    direction_forward \<Rightarrow> linestring_forward_all G wnl
                  | direction_backward \<Rightarrow> linestring_backward_all G wnl (start_index wnl)))
           (linestring_finish G))"

text \<open>\<open>osmium::Way\<close>, as far as the second overload of \<open>create_linestring\<close> reads it.\<close>

datatype way = Way (way_id: int) (way_nodes: "node_ref list")

definition create_linestring_way ::
  "('s, 'p, 'l, 'm) backend \<Rightarrow> way \<Rightarrow> use_nodes \<Rightarrow> direction \<Rightarrow> ('l, 's) action" where
  "create_linestring_way G w un dir = create_linestring G (way_nodes w) un dir"

subsection \<open>Multipolygons\<close>

text \<open>The loop of \<open>add_points\<close>, and \<open>add_points\<close> with the loop's local initialised.\<close>

fun add_points_from ::
  "('s, 'p, 'l, 'm) backend \<Rightarrow> location \<Rightarrow> node_ref list \<Rightarrow> (unit, 's) action" where
  "add_points_from G last_location [] = ok ()"
| "add_points_from G last_location (n # nodes) =
     (if last_location \<noteq> location n
      then seq (multipolygon_add_location G (location n))
               (add_points_from G (location n) nodes)
      else add_points_from G last_location nodes)"

definition add_points :: "('s, 'p, 'l, 'm) backend \<Rightarrow> node_ref list \<Rightarrow> (unit, 's) action" where
  "add_points G nodes = add_points_from G undefined_location nodes"

text \<open>
  The loop over the Area's items. \<open>num_rings\<close> is a local C++ \<open>int\<close> that the loop only
  increments and that is read after the loop; it is kept as a 32-bit word, the loop returns
  its last value, and \<open>++num_rings\<close> is the \<open>+ 1\<close> in the call for the rest of the items.
  The \<open>+ 1\<close> of a word wraps around, where the \<open>++\<close> of an \<open>int\<close> at its largest value
  is undefined: what is proved of the count is proved for fewer than \<open>2 ^ 31\<close> rings.
\<close>

fun multipolygon_items ::
  "('s, 'p, 'l, 'm) backend \<Rightarrow> item list \<Rightarrow> 32 word \<Rightarrow> (32 word, 's) action" where
  "multipolygon_items G [] num_rings = ok num_rings"
| "multipolygon_items G (it # its) num_rings =
     (if ty it = item_type_outer_ring
      then seq (multipolygon_outer_ring_start G)
            (seq (add_points G (ring_nodes it))
              (seq (multipolygon_outer_ring_finish G)
                (multipolygon_items G its (num_rings + 1))))
      else if ty it = item_type_inner_ring
      then seq (multipolygon_inner_ring_start G)
            (seq (add_points G (ring_nodes it))
              (seq (multipolygon_inner_ring_finish G)
                (multipolygon_items G its (num_rings + 1))))
      else multipolygon_items G its num_rings)"

definition create_multipolygon :: "('s, 'p, 'l, 'm) backend \<Rightarrow> area \<Rightarrow> ('m, 's) action" where
  "create_multipolygon G area =
     seq (multipolygon_start G)
      (and_then (multipolygon_items G area 0)
        (\<lambda>num_rings.
           if num_rings = 0 then throw (geometry_error ''invalid area'')
           else multipolygon_finish G))"

section \<open>The diff dispatcher (diff_visitor.hpp)\<close>

text \<open>
  A handler, as \<open>apply_diff\<close> uses it: the three callbacks \<open>node\<close>, \<open>way\<close> and \<open>relation\<close>.
  The handlers of one call act on one world \<open>'w\<close>, each on its own part of it.
\<close>

record ('o, 'w) handler =
  handler_node :: "'o diff_object \<Rightarrow> (unit, 'w) action"
  handler_way :: "'o diff_object \<Rightarrow> (unit, 'w) action"
  handler_relation :: "'o diff_object \<Rightarrow> (unit, 'w) action"

text \<open>The overload of \<open>detail::apply_diff_iterator_recurse\<close> for one handler.\<close>

definition apply_diff_iterator_recurse1 ::
  "'o diff_object \<Rightarrow> ('o, 'w) handler \<Rightarrow> (unit, 'w) action" where
  "apply_diff_iterator_recurse1 diff h =
     (case diff_type diff of
        item_type_node \<Rightarrow> handler_node h diff
      | item_type_way \<Rightarrow> handler_way h diff
      | item_type_relation \<Rightarrow> handler_relation h diff
      | _ \<Rightarrow> throw (runtime_error ''unknown type''))"

text \<open>
  The variadic overload: the first handler, then the rest. The parameter pack of a call
  that compiles holds at least one handler, so the handlers are a first one and a list.
\<close>

fun apply_diff_iterator_recurse ::
  "'o diff_object \<Rightarrow> ('o, 'w) handler \<Rightarrow> ('o, 'w) handler list \<Rightarrow> (unit, 'w) action" where
  "apply_diff_iterator_recurse diff h [] = apply_diff_iterator_recurse1 diff h"
| "apply_diff_iterator_recurse diff h (h' # rest) =
     seq (apply_diff_iterator_recurse1 diff h) (apply_diff_iterator_recurse diff h' rest)"

text \<open>
  \<open>apply_diff\<close> on an iterator range. The \<open>DiffIterator\<close> is an external collaborator; the
  list is the sequence of DiffObjects it yields between \<open>dit\<close> and \<open>dend\<close>. The overloads
  for an input source and for a buffer call this one on the range of their argument.
\<close>

fun apply_diff ::
  "'o diff_object list \<Rightarrow> ('o, 'w) handler \<Rightarrow> ('o, 'w) handler list \<Rightarrow> (unit, 'w) action" where
  "apply_diff [] h rest = ok ()"
| "apply_diff (d # dit) h rest =
     seq (apply_diff_iterator_recurse d h rest) (apply_diff dit h rest)"

section \<open>A backend that records its calls\<close>

text \<open>
  Modelled from the spec: the concrete backends (\<open>osmium/geom/geojson.hpp\<close> and its
  siblings) are not among the sources at hand. This backend does what section 4.1 of the
  specification asks of every backend and nothing more: \<open>make_point\<close> and both
  \<open>add_location\<close> operations fail with \<open>invalid_location\<close> on an undefined Location, a
  start operation opens an empty point list, a finish operation hands back what was
  collected. It keeps a log of the calls it receives, the failing ones too.
\<close>

datatype call =
    MakePoint location
  | LinestringStart
  | LinestringAddLocation location
  | LinestringFinish
  | MultipolygonStart
  | MultipolygonOuterRingStart
  | MultipolygonOuterRingFinish
  | MultipolygonInnerRingStart
  | MultipolygonInnerRingFinish
  | MultipolygonAddLocation location
  | MultipolygonFinish

record recorder =
  calls :: "call list"
  points :: "location list"
  rings :: "(item_type \<times> location list) list"

definition record_call :: "call \<Rightarrow> recorder \<Rightarrow> recorder" where
  "record_call c s = s\<lparr>calls := calls s @ [c]\<rparr>"

text \<open>
  Modelled from the spec: \<open>make_point\<close> of a backend (section 4.1: it must fail with
  \<open>invalid_location\<close> if the Location is undefined). The point it makes is the Location.
\<close>

definition rec_make_point :: "location \<Rightarrow> (location, recorder) action" where
  "rec_make_point l s =
     (if l = undefined_location then (Inl invalid_location, record_call (MakePoint l) s)
      else (Inr l, record_call (MakePoint l) s))"

text \<open>
  Modelled from the spec: \<open>linestring_start\<close> and the two ring start operations of a
  backend; each opens an empty list of points.
\<close>

definition rec_start :: "call \<Rightarrow> (unit, recorder) action" where
  "rec_start c s = (Inr (), (record_call c s)\<lparr>points := []\<rparr>)"

text \<open>
  Modelled from the spec: \<open>linestring_add_location\<close> and \<open>multipolygon_add_location\<close> of
  a backend (section 4.1: they must fail with \<open>invalid_location\<close> on an undefined
  Location). The test \<open>linestring_with_undefined_location\<close> sees this from the GeoJSON
  backend.
\<close>

definition rec_add_location :: "(location \<Rightarrow> call) \<Rightarrow> location \<Rightarrow> (unit, recorder) action" where
  "rec_add_location c l s =
     (if l = undefined_location then (Inl invalid_location, record_call (c l) s)
      else (Inr (), (record_call (c l) s)\<lparr>points := points s @ [l]\<rparr>))"

text \<open>
  Modelled from the spec: \<open>linestring_finish\<close> of a backend; the linestring is the list of
  its points. A least number of points is the business of a concrete backend (the GeoJSON
  backend of the tests asks for two) and no part of the contract.
\<close>

definition rec_linestring_finish :: "(location list, recorder) action" where
  "rec_linestring_finish s = (Inr (points s), record_call LinestringFinish s)"

text \<open>
  Modelled from the spec: \<open>multipolygon_start\<close>, the two ring finish operations and
  \<open>multipolygon_finish\<close> of a backend; the multipolygon is the list of its rings, each
  with its tag, in the order in which they were finished.
\<close>

definition rec_multipolygon_start :: "(unit, recorder) action" where
  "rec_multipolygon_start s = (Inr (), (record_call MultipolygonStart s)\<lparr>rings := []\<rparr>)"

definition rec_ring_finish :: "call \<Rightarrow> item_type \<Rightarrow> (unit, recorder) action" where
  "rec_ring_finish c t s = (Inr (), (record_call c s)\<lparr>rings := rings s @ [(t, points s)]\<rparr>)"

definition rec_multipolygon_finish :: "((item_type \<times> location list) list, recorder) action" where
  "rec_multipolygon_finish s = (Inr (rings s), record_call MultipolygonFinish s)"

definition recording_backend ::
  "(recorder, location, location list, (item_type \<times> location list) list) backend" where
  "recording_backend =
     \<lparr> make_point = rec_make_point,
       linestring_start = rec_start LinestringStart,
       linestring_add_location = rec_add_location LinestringAddLocation,
       linestring_finish = rec_linestring_finish,
       multipolygon_start = rec_multipolygon_start,
       multipolygon_outer_ring_start = rec_start MultipolygonOuterRingStart,
       multipolygon_outer_ring_finish =
         rec_ring_finish MultipolygonOuterRingFinish item_type_outer_ring,
       multipolygon_inner_ring_start = rec_start MultipolygonInnerRingStart,
       multipolygon_inner_ring_finish =
         rec_ring_finish MultipolygonInnerRingFinish item_type_inner_ring,
       multipolygon_add_location = rec_add_location MultipolygonAddLocation,
       multipolygon_finish = rec_multipolygon_finish \<rparr>"

definition new_recorder :: recorder where
  "new_recorder = \<lparr> calls = [], points = [], rings = [] \<rparr>"

text \<open>The Locations of the \<open>linestring_add_location\<close> calls of a log, in the order of the calls.\<close>

fun linestring_locations :: "call list \<Rightarrow> location list" where
  "linestring_locations [] = []"
| "linestring_locations (LinestringAddLocation l # cs) = l # linestring_locations cs"
| "linestring_locations (c # cs) = linestring_locations cs"

subsection \<open>Sessions of a call log\<close>

text \<open>
  Reading a log from the left with the stack of the sessions that are open: a start call
  opens a session, a finish call closes the innermost one and must be of its kind. The
  result is the stack after the last call, or \<open>None\<close> when a finish call met no open
  session of its kind. \<open>Some []\<close> says that every session that was opened has been
  closed, once, by the matching finish call.
\<close>

datatype session = LinestringSession | MultipolygonSession | OuterRingSession | InnerRingSession

fun track_call :: "call \<Rightarrow> session list \<Rightarrow> session list option" where
  "track_call LinestringStart st = Some (LinestringSession # st)"
| "track_call MultipolygonStart st = Some (MultipolygonSession # st)"
| "track_call MultipolygonOuterRingStart st = Some (OuterRingSession # st)"
| "track_call MultipolygonInnerRingStart st = Some (InnerRingSession # st)"
| "track_call LinestringFinish st =
     (case st of LinestringSession # st' \<Rightarrow> Some st' | _ \<Rightarrow> None)"
| "track_call MultipolygonFinish st =
     (case st of MultipolygonSession # st' \<Rightarrow> Some st' | _ \<Rightarrow> None)"
| "track_call MultipolygonOuterRingFinish st =
     (case st of OuterRingSession # st' \<Rightarrow> Some st' | _ \<Rightarrow> None)"
| "track_call MultipolygonInnerRingFinish st =
     (case st of InnerRingSession # st' \<Rightarrow> Some st' | _ \<Rightarrow> None)"
| "track_call (MakePoint l) st = Some st"
| "track_call (LinestringAddLocation l) st = Some st"
| "track_call (MultipolygonAddLocation l) st = Some st"

fun open_sessions :: "call list \<Rightarrow> session list \<Rightarrow> session list option" where
  "open_sessions [] st = Some st"
| "open_sessions (c # cs) st =
     (case track_call c st of None \<Rightarrow> None | Some st' \<Rightarrow> open_sessions cs st')"

section \<open>What the loops pass to the backend\<close>

text \<open>One \<open>add_location\<close> call for each Location of a list, from the left, up to the first throw.\<close>

fun emit :: "(location \<Rightarrow> (unit, 's) action) \<Rightarrow> location list \<Rightarrow> (unit, 's) action" where
  "emit add [] = ok ()"
| "emit add (l # ls) = seq (add l) (emit add ls)"

text \<open>
  The Locations the loops of \<open>create_linestring\<close> visit, in the order of the visit. The
  backward loops start at \<open>start_index\<close> and go down to index 0.
\<close>

definition locations_visited :: "direction \<Rightarrow> node_ref list \<Rightarrow> location list" where
  "locations_visited dir wnl =
     (case dir of
        direction_forward \<Rightarrow> map location wnl
      | direction_backward \<Rightarrow> rev (map location (take (nat (start_index wnl + 1)) wnl)))"

text \<open>
  What is left of a list of visited Locations when a loop with the local \<open>last_location\<close>,
  first undefined, has gone over it.
\<close>

definition collapsed :: "location list \<Rightarrow> location list" where
  "collapsed ls = tl (remdups_adj (undefined_location # ls))"

text \<open>The Locations \<open>create_linestring\<close> passes to \<open>linestring_add_location\<close>, in order.\<close>

definition locations_passed :: "use_nodes \<Rightarrow> direction \<Rightarrow> node_ref list \<Rightarrow> location list" where
  "locations_passed un dir wnl =
     (if un = use_nodes_unique then collapsed (locations_visited dir wnl)
      else locations_visited dir wnl)"

definition is_ring :: "item \<Rightarrow> bool" where
  "is_ring it = (ty it = item_type_outer_ring \<or> ty it = item_type_inner_ring)"

text \<open>The Locations \<open>add_points\<close> passes to \<open>multipolygon_add_location\<close> for a ring.\<close>

definition ring_points :: "item \<Rightarrow> location list" where
  "ring_points it = collapsed (map location (ring_nodes it))"

section \<open>Handlers that record their callbacks\<close>

datatype callback = NodeCallback | WayCallback | RelationCallback

text \<open>
  The handler with number \<open>k\<close> of a call: each callback appends its own number, its name
  and the DiffObject it was given to a log that all the handlers of the call share.
\<close>

definition recording_handler ::
  "nat \<Rightarrow> ('o, (nat \<times> callback \<times> 'o diff_object) list) handler" where
  "recording_handler k =
     \<lparr> handler_node = (\<lambda>d w. (Inr (), w @ [(k, NodeCallback, d)])),
       handler_way = (\<lambda>d w. (Inr (), w @ [(k, WayCallback, d)])),
       handler_relation = (\<lambda>d w. (Inr (), w @ [(k, RelationCallback, d)])) \<rparr>"

text \<open>The callback that belongs to a kind tag, for the three tags that have one.\<close>

fun callback_of :: "item_type \<Rightarrow> callback option" where
  "callback_of item_type_node = Some NodeCallback"
| "callback_of item_type_way = Some WayCallback"
| "callback_of item_type_relation = Some RelationCallback"
| "callback_of _ = None"

section \<open>The loops as sequences of backend calls\<close>

lemma seq_ok [simp]: "seq (ok a) k = k"
  by (simp add: seq_def and_then_def ok_def fun_eq_iff)

lemma seq_assoc: "seq (seq a b) c = seq a (seq b c)"
  by (auto simp: seq_def and_then_def fun_eq_iff split: prod.splits sum.splits)

lemma emit_remdups_adj_Cons:
  "emit add (remdups_adj (x # xs)) = seq (add x) (emit add (tl (remdups_adj (x # xs))))"
proof -
  have "emit add (x # tl (remdups_adj (x # xs))) =
        seq (add x) (emit add (tl (remdups_adj (x # xs))))"
    by (rule emit.simps(2))
  then show ?thesis by (simp only: remdups_adj_Cons_alt)
qed

lemma forward_unique_emit:
  "linestring_forward_unique G last_location wnl =
     emit (linestring_add_location G) (tl (remdups_adj (last_location # map location wnl)))"
proof (induction wnl arbitrary: last_location)
  case Nil
  show ?case by simp
next
  case (Cons wn wnl)
  show ?case
  proof (cases "last_location = location wn")
    case True
    then show ?thesis using Cons.IH [of last_location] by simp
  next
    case False
    with Cons.IH [of "location wn"] show ?thesis by (simp add: emit_remdups_adj_Cons)
  qed
qed

lemma add_points_from_emit:
  "add_points_from G last_location nodes =
     emit (multipolygon_add_location G) (tl (remdups_adj (last_location # map location nodes)))"
proof (induction nodes arbitrary: last_location)
  case Nil
  show ?case by simp
next
  case (Cons n nodes)
  show ?case
  proof (cases "last_location = location n")
    case True
    then show ?thesis using Cons.IH [of last_location] by simp
  next
    case False
    with Cons.IH [of "location n"] show ?thesis by (simp add: emit_remdups_adj_Cons)
  qed
qed

lemma forward_all_emit:
  "linestring_forward_all G wnl = emit (linestring_add_location G) (map location wnl)"
  by (induction wnl) simp_all

lemma take_nat_step:
  assumes "0 \<le> i" "i < int (length xs)"
  shows "rev (take (nat (i + 1)) xs) = xs ! nat i # rev (take (nat (i - 1 + 1)) xs)"
proof -
  have "nat (i + 1) = Suc (nat i)" using assms by simp
  moreover have "nat i < length xs" using assms by simp
  ultimately show ?thesis by (simp add: take_Suc_conv_app_nth)
qed

lemma backward_unique_forward:
  "i < int (length wnl) \<Longrightarrow>
   linestring_backward_unique G wnl i last_location =
     linestring_forward_unique G last_location (rev (take (nat (i + 1)) wnl))"
proof (induction G wnl i last_location rule: linestring_backward_unique.induct)
  case (1 G wnl i last_location)
  show ?case
  proof (cases "0 \<le> i")
    case False
    then show ?thesis by (subst linestring_backward_unique.simps) simp
  next
    case True
    note step = take_nat_step [OF True "1.prems"]
    have lt: "i - 1 < int (length wnl)" using "1.prems" by simp
    show ?thesis
    proof (cases "last_location = location (wnl ! nat i)")
      case same: True
      have "linestring_backward_unique G wnl i last_location =
            linestring_backward_unique G wnl (i - 1) last_location"
        using True same by (subst linestring_backward_unique.simps) simp
      also have "\<dots> = linestring_forward_unique G last_location (rev (take (nat (i - 1 + 1)) wnl))"
        using "1.IH"(2) [OF True _ lt] same by simp
      finally show ?thesis using same by (simp only: step linestring_forward_unique.simps if_False simp_thms)
    next
      case diff: False
      have "linestring_backward_unique G wnl i last_location =
            seq (linestring_add_location G (location (wnl ! nat i)))
              (linestring_backward_unique G wnl (i - 1) (location (wnl ! nat i)))"
        using True diff by (subst linestring_backward_unique.simps) simp
      also have "linestring_backward_unique G wnl (i - 1) (location (wnl ! nat i)) =
           linestring_forward_unique G (location (wnl ! nat i)) (rev (take (nat (i - 1 + 1)) wnl))"
        using "1.IH"(1) [OF True diff lt] by simp
      finally show ?thesis using diff by (simp only: step linestring_forward_unique.simps if_True simp_thms)
    qed
  qed
qed

lemma backward_all_forward:
  "i < int (length wnl) \<Longrightarrow>
   linestring_backward_all G wnl i = linestring_forward_all G (rev (take (nat (i + 1)) wnl))"
proof (induction G wnl i rule: linestring_backward_all.induct)
  case (1 G wnl i)
  show ?case
  proof (cases "0 \<le> i")
    case False
    then show ?thesis by (subst linestring_backward_all.simps) simp
  next
    case True
    note step = take_nat_step [OF True "1.prems"]
    have lt: "i - 1 < int (length wnl)" using "1.prems" by simp
    have "linestring_backward_all G wnl i =
            seq (linestring_add_location G (location (wnl ! nat i)))
              (linestring_backward_all G wnl (i - 1))"
      using True by (subst linestring_backward_all.simps) simp
    also have "linestring_backward_all G wnl (i - 1) =
           linestring_forward_all G (rev (take (nat (i - 1 + 1)) wnl))"
      using "1.IH" [OF True lt] by simp
    finally show ?thesis by (simp only: step linestring_forward_all.simps)
  qed
qed

lemma start_index_signed_take_bit:
  "start_index wnl = signed_take_bit 31 (int (length wnl) - 1)"
proof -
  have "(word_of_nat (length wnl) - 1 :: 32 word) = word_of_int (int (length wnl) - 1)"
    by simp
  then show ?thesis
    unfolding start_index_def by (simp only: sint_sbintrunc') simp
qed

lemma start_index_small:
  assumes "length wnl \<le> 2 ^ 31"
  shows "start_index wnl = int (length wnl) - 1"
proof -
  have "- (2 ^ 31) \<le> int (length wnl) - 1" by simp
  moreover have "int (length wnl) - 1 < 2 ^ 31" using assms by simp
  ultimately show ?thesis
    unfolding start_index_signed_take_bit by (rule signed_take_bit_int_eq_self)
qed

lemma start_index_in_range: "start_index wnl < int (length wnl)"
proof (cases "length wnl \<le> 2 ^ 31")
  case True
  then show ?thesis by (simp add: start_index_small)
next
  case False
  have "signed_take_bit 31 (int (length wnl) - 1) < (2 :: int) ^ 31"
    by (rule signed_take_bit_int_less_exp)
  also have "\<dots> < int (length wnl)" using False by simp
  finally show ?thesis by (simp only: start_index_signed_take_bit)
qed

lemma locations_visited_forward [simp]:
  "locations_visited direction_forward wnl = map location wnl"
  by (simp add: locations_visited_def)

lemma locations_visited_backward:
  "length wnl \<le> 2 ^ 31 \<Longrightarrow> locations_visited direction_backward wnl = rev (map location wnl)"
  by (simp add: locations_visited_def start_index_small)

lemma create_linestring_emit:
  "create_linestring G wnl un dir =
     seq (linestring_start G)
      (seq (emit (linestring_add_location G)
              (locations_passed un dir wnl))
           (linestring_finish G))"
  using start_index_in_range [of wnl]
  by (cases dir)
     (simp_all add: create_linestring_def locations_passed_def locations_visited_def collapsed_def
        backward_unique_forward backward_all_forward forward_unique_emit forward_all_emit
        rev_map take_map)

lemma create_linestring_way_nodes:
  "create_linestring_way G (Way i wnl) un dir = create_linestring G wnl un dir"
  by (simp add: create_linestring_way_def)

lemma add_points_emit:
  "add_points G nodes = emit (multipolygon_add_location G) (collapsed (map location nodes))"
  by (simp add: add_points_def collapsed_def add_points_from_emit)

lemma collapsed_Nil [simp]: "collapsed [] = []"
  by (simp add: collapsed_def)

lemma collapsed_Cons:
  "collapsed (l # ls) =
     (if l = undefined_location then collapsed ls else remdups_adj (l # ls))"
  by (simp add: collapsed_def)

lemma collapsed_defined:
  "undefined_location \<notin> set ls \<Longrightarrow> collapsed ls = remdups_adj ls"
  by (cases ls) (auto simp: collapsed_Cons)

lemma distinct_adj_collapsed: "distinct_adj (collapsed ls)"
proof -
  have "distinct_adj (remdups_adj (undefined_location # ls))" by simp
  then show ?thesis
    unfolding collapsed_def by (cases "remdups_adj (undefined_location # ls)")
      (auto dest: distinct_adj_ConsD)
qed

lemma set_collapsed: "set (collapsed ls) \<subseteq> set ls"
  by (induction ls) (auto simp: collapsed_Cons)

section \<open>The engine on the recording backend\<close>

lemma recording_backend_simps [simp]:
  "make_point recording_backend = rec_make_point"
  "linestring_start recording_backend = rec_start LinestringStart"
  "linestring_add_location recording_backend = rec_add_location LinestringAddLocation"
  "linestring_finish recording_backend = rec_linestring_finish"
  "multipolygon_start recording_backend = rec_multipolygon_start"
  "multipolygon_outer_ring_start recording_backend = rec_start MultipolygonOuterRingStart"
  "multipolygon_outer_ring_finish recording_backend =
     rec_ring_finish MultipolygonOuterRingFinish item_type_outer_ring"
  "multipolygon_inner_ring_start recording_backend = rec_start MultipolygonInnerRingStart"
  "multipolygon_inner_ring_finish recording_backend =
     rec_ring_finish MultipolygonInnerRingFinish item_type_inner_ring"
  "multipolygon_add_location recording_backend = rec_add_location MultipolygonAddLocation"
  "multipolygon_finish recording_backend = rec_multipolygon_finish"
  by (simp_all add: recording_backend_def)

lemma seq_apply:
  "seq m k s = (case m s of (Inl e, s') \<Rightarrow> (Inl e, s') | (Inr u, s') \<Rightarrow> k s')"
  by (simp add: seq_def and_then_def)

lemma seq_Inr: "m s = (Inr u, s') \<Longrightarrow> seq m k s = k s'"
  by (simp add: seq_apply)

lemma seq_Inl: "m s = (Inl e, s') \<Longrightarrow> seq m k s = (Inl e, s')"
  by (simp add: seq_apply)

lemma rec_add_location_defined:
  "l \<noteq> undefined_location \<Longrightarrow>
   rec_add_location c l s = (Inr (), s\<lparr>calls := calls s @ [c l], points := points s @ [l]\<rparr>)"
  by (simp add: rec_add_location_def record_call_def)

lemma rec_add_location_undefined:
  "rec_add_location c undefined_location s =
     (Inl invalid_location, s\<lparr>calls := calls s @ [c undefined_location]\<rparr>)"
  by (simp add: rec_add_location_def record_call_def)

lemma emit_rec_defined:
  "undefined_location \<notin> set ls \<Longrightarrow>
   emit (rec_add_location c) ls s =
     (Inr (), s\<lparr>calls := calls s @ map c ls, points := points s @ ls\<rparr>)"
proof (induction ls arbitrary: s)
  case Nil
  show ?case by (simp add: ok_def)
next
  case (Cons l ls)
  then have l: "l \<noteq> undefined_location" and ls: "undefined_location \<notin> set ls"
    by auto
  show ?case
    by (simp add: seq_Inr [OF rec_add_location_defined [OF l]] Cons.IH [OF ls])
qed

lemma emit_rec_undefined:
  "undefined_location \<in> set ls \<Longrightarrow>
   emit (rec_add_location c) ls s =
     (Inl invalid_location,
      s\<lparr>calls := calls s @ map c (takeWhile (\<lambda>l. l \<noteq> undefined_location) ls)
                   @ [c undefined_location],
        points := points s @ takeWhile (\<lambda>l. l \<noteq> undefined_location) ls\<rparr>)"
proof (induction ls arbitrary: s)
  case Nil
  then show ?case by simp
next
  case (Cons l ls)
  show ?case
  proof (cases "l = undefined_location")
    case True
    then show ?thesis by (simp add: seq_Inl [OF rec_add_location_undefined])
  next
    case False
    with Cons.prems have ls: "undefined_location \<in> set ls" by auto
    show ?thesis
      using False by (simp add: seq_Inr [OF rec_add_location_defined [OF False]] Cons.IH [OF ls])
  qed
qed

lemma create_linestring_rec_ok:
  assumes "undefined_location \<notin> set (locations_passed un dir wnl)"
  shows "create_linestring recording_backend wnl un dir s =
     (Inr (locations_passed un dir wnl),
      s\<lparr>calls := calls s @ LinestringStart #
           map LinestringAddLocation (locations_passed un dir wnl) @ [LinestringFinish],
        points := locations_passed un dir wnl\<rparr>)"
  by (simp add: create_linestring_emit seq_apply rec_start_def record_call_def
      emit_rec_defined [OF assms] rec_linestring_finish_def)

lemma create_linestring_rec_fail:
  assumes "undefined_location \<in> set (locations_passed un dir wnl)"
  shows "create_linestring recording_backend wnl un dir s =
     (Inl invalid_location,
      s\<lparr>calls := calls s @ LinestringStart #
           map LinestringAddLocation
             (takeWhile (\<lambda>l. l \<noteq> undefined_location) (locations_passed un dir wnl)) @
           [LinestringAddLocation undefined_location],
        points := takeWhile (\<lambda>l. l \<noteq> undefined_location) (locations_passed un dir wnl)\<rparr>)"
  by (simp add: create_linestring_emit seq_apply rec_start_def record_call_def
      emit_rec_undefined [OF assms])

lemma linestring_locations_append:
  "linestring_locations (xs @ ys) = linestring_locations xs @ linestring_locations ys"
  by (induction xs rule: linestring_locations.induct) simp_all

lemma linestring_locations_map [simp]:
  "linestring_locations (map LinestringAddLocation ls) = ls"
  by (induction ls) simp_all

lemma takeWhile_first_failure:
  assumes "x \<in> set xs" "\<not> P x" "\<And>y. \<not> P y \<Longrightarrow> y = x"
  shows "\<exists>zs. xs = (takeWhile P xs @ [x]) @ zs"
proof -
  from assms(1,2) have ne: "dropWhile P xs \<noteq> []" by auto
  then have "\<not> P (hd (dropWhile P xs))" by (rule hd_dropWhile)
  then have "hd (dropWhile P xs) = x" by (rule assms(3))
  with ne have "dropWhile P xs = x # tl (dropWhile P xs)" by (cases "dropWhile P xs") auto
  then have "xs = takeWhile P xs @ x # tl (dropWhile P xs)"
    by (metis takeWhile_dropWhile_id)
  then show ?thesis by auto
qed

lemma distinct_adj_until_undefined:
  assumes "distinct_adj ls" "undefined_location \<in> set ls"
  shows "distinct_adj (takeWhile (\<lambda>l. l \<noteq> undefined_location) ls @ [undefined_location])"
proof -
  obtain zs where "ls = (takeWhile (\<lambda>l. l \<noteq> undefined_location) ls @ [undefined_location]) @ zs"
    using takeWhile_first_failure [of undefined_location ls "\<lambda>l. l \<noteq> undefined_location"] assms(2)
    by auto
  with assms(1) show ?thesis by (metis distinct_adj_appendD1)
qed

lemma distinct_adj_locations_passed_unique:
  "distinct_adj (locations_passed use_nodes_unique dir wnl)"
  by (simp add: locations_passed_def distinct_adj_collapsed)

lemma linestring_locations_create_linestring:
  "linestring_locations
     (calls (snd (create_linestring recording_backend wnl un dir (s\<lparr>calls := []\<rparr>)))) =
   (if undefined_location \<in> set (locations_passed un dir wnl)
    then takeWhile (\<lambda>l. l \<noteq> undefined_location) (locations_passed un dir wnl) @
         [undefined_location]
    else locations_passed un dir wnl)"
  by (simp add: create_linestring_rec_ok create_linestring_rec_fail linestring_locations_append)

lemma locations_passed_defined:
  assumes "undefined_location \<notin> location ` set wnl"
  shows "locations_passed use_nodes_unique direction_forward wnl = remdups_adj (map location wnl)"
    and "length wnl \<le> 2 ^ 31 \<Longrightarrow>
         locations_passed use_nodes_unique direction_backward wnl =
           remdups_adj (rev (map location wnl))"
    and "locations_passed use_nodes_all direction_forward wnl = map location wnl"
    and "length wnl \<le> 2 ^ 31 \<Longrightarrow>
         locations_passed use_nodes_all direction_backward wnl = rev (map location wnl)"
  using assms
  by (simp_all add: locations_passed_def locations_visited_backward collapsed_defined)

lemma set_locations_visited: "set (locations_visited dir wnl) \<subseteq> location ` set wnl"
  by (cases dir) (auto simp: locations_visited_def dest: in_set_takeD)

lemma set_locations_passed: "set (locations_passed un dir wnl) \<subseteq> location ` set wnl"
  using set_collapsed [of "locations_visited dir wnl"] set_locations_visited [of dir wnl]
  by (auto simp: locations_passed_def)

lemma and_then_apply:
  "and_then m f s = (case m s of (Inl e, s') \<Rightarrow> (Inl e, s') | (Inr a, s') \<Rightarrow> f a s')"
  by (simp add: and_then_def)

lemma multipolygon_items_filter:
  "multipolygon_items G its n = multipolygon_items G (filter is_ring its) n"
  by (induction its arbitrary: n) (simp_all add: is_ring_def)

lemma create_multipolygon_filter:
  "create_multipolygon G area = create_multipolygon G (filter is_ring area)"
  unfolding create_multipolygon_def by (subst multipolygon_items_filter) simp

lemma ring_ok:
  assumes "undefined_location \<notin> set (collapsed (map location nodes))"
  shows "seq (rec_start cs)
           (seq (add_points recording_backend nodes) (seq (rec_ring_finish cf t) k)) s =
         k (s\<lparr>calls := calls s @ cs # map MultipolygonAddLocation (collapsed (map location nodes))
                          @ [cf],
               points := collapsed (map location nodes),
               rings := rings s @ [(t, collapsed (map location nodes))]\<rparr>)"
proof -
  have a: "seq (rec_start cs)
           (seq (add_points recording_backend nodes) (seq (rec_ring_finish cf t) k)) s =
        k (s\<lparr>points := collapsed (map location nodes),
          calls := calls s @ cs # map MultipolygonAddLocation (collapsed (map location nodes))
                     @ [cf],
          rings := rings s @ [(t, collapsed (map location nodes))]\<rparr>)"
    by (simp add: add_points_emit seq_apply rec_start_def rec_ring_finish_def record_call_def
        emit_rec_defined [OF assms])
  have b: "s\<lparr>points := collapsed (map location nodes),
          calls := calls s @ cs # map MultipolygonAddLocation (collapsed (map location nodes))
                     @ [cf],
          rings := rings s @ [(t, collapsed (map location nodes))]\<rparr> =
        s\<lparr>calls := calls s @ cs # map MultipolygonAddLocation (collapsed (map location nodes))
                     @ [cf],
          points := collapsed (map location nodes),
          rings := rings s @ [(t, collapsed (map location nodes))]\<rparr>"
    by simp
  show ?thesis by (simp only: a b)
qed

lemma ring_fail:
  assumes "undefined_location \<in> set (collapsed (map location nodes))"
  shows "seq (rec_start cs)
           (seq (add_points recording_backend nodes) (seq (rec_ring_finish cf t) k)) s =
         (Inl invalid_location,
          s\<lparr>calls := calls s @ cs #
                 map MultipolygonAddLocation
                   (takeWhile (\<lambda>l. l \<noteq> undefined_location) (collapsed (map location nodes)))
                 @ [MultipolygonAddLocation undefined_location],
            points := takeWhile (\<lambda>l. l \<noteq> undefined_location) (collapsed (map location nodes))\<rparr>)"
  by (simp add: add_points_emit seq_apply rec_start_def record_call_def
      emit_rec_undefined [OF assms])

lemma multipolygon_items_rec_Cons_ok:
  assumes "is_ring it" "undefined_location \<notin> set (ring_points it)"
  shows "multipolygon_items recording_backend (it # its) n s =
         multipolygon_items recording_backend its (n + 1)
           (s\<lparr>calls := calls s @
                  (if ty it = item_type_outer_ring then MultipolygonOuterRingStart
                   else MultipolygonInnerRingStart) #
                  map MultipolygonAddLocation (ring_points it) @
                  [if ty it = item_type_outer_ring then MultipolygonOuterRingFinish
                   else MultipolygonInnerRingFinish],
               points := ring_points it,
               rings := rings s @ [(ty it, ring_points it)]\<rparr>)"
  using assms by (auto simp: is_ring_def ring_points_def ring_ok)

lemma multipolygon_items_rec_Cons_fail:
  assumes "is_ring it" "undefined_location \<in> set (ring_points it)"
  shows "multipolygon_items recording_backend (it # its) n s =
         (Inl invalid_location,
          s\<lparr>calls := calls s @
                  (if ty it = item_type_outer_ring then MultipolygonOuterRingStart
                   else MultipolygonInnerRingStart) #
                  map MultipolygonAddLocation
                    (takeWhile (\<lambda>l. l \<noteq> undefined_location) (ring_points it)) @
                  [MultipolygonAddLocation undefined_location],
               points := takeWhile (\<lambda>l. l \<noteq> undefined_location) (ring_points it)\<rparr>)"
  using assms by (auto simp: is_ring_def ring_points_def ring_fail)

lemma multipolygon_items_rec_Cons_skip:
  "\<not> is_ring it \<Longrightarrow>
   multipolygon_items recording_backend (it # its) n s =
   multipolygon_items recording_backend its n s"
  by (simp add: is_ring_def)

lemma multipolygon_items_fst:
  "fst (multipolygon_items recording_backend its n s) =
     (if \<forall>it \<in> set its. is_ring it \<longrightarrow> undefined_location \<notin> set (ring_points it)
      then Inr (n + word_of_nat (length (filter is_ring its)))
      else Inl invalid_location)"
proof (induction its arbitrary: n s)
  case Nil
  show ?case by (simp add: ok_def)
next
  case (Cons it its)
  show ?case
  proof (cases "is_ring it")
    case False
    then show ?thesis
      by (simp only: multipolygon_items_rec_Cons_skip [OF False] Cons.IH) simp
  next
    case True
    show ?thesis
    proof (cases "undefined_location \<in> set (ring_points it)")
      case u: True
      then show ?thesis
        using True by (simp only: multipolygon_items_rec_Cons_fail [OF True u]) auto
    next
      case d: False
      then show ?thesis
        using True by (simp only: multipolygon_items_rec_Cons_ok [OF True d] Cons.IH)
          (simp add: add.assoc add.commute)
    qed
  qed
qed

lemma multipolygon_items_rings:
  "\<forall>it \<in> set its. is_ring it \<longrightarrow> undefined_location \<notin> set (ring_points it) \<Longrightarrow>
   rings (snd (multipolygon_items recording_backend its n s)) =
     rings s @ map (\<lambda>it. (ty it, ring_points it)) (filter is_ring its)"
proof (induction its arbitrary: n s)
  case Nil
  show ?case by (simp add: ok_def)
next
  case (Cons it its)
  then have rest: "\<forall>it \<in> set its. is_ring it \<longrightarrow> undefined_location \<notin> set (ring_points it)"
    by simp
  show ?case
  proof (cases "is_ring it")
    case False
    then show ?thesis
      by (simp only: multipolygon_items_rec_Cons_skip [OF False] Cons.IH [OF rest]) simp
  next
    case True
    with Cons.prems have d: "undefined_location \<notin> set (ring_points it)" by simp
    show ?thesis
      using True by (simp only: multipolygon_items_rec_Cons_ok [OF True d] Cons.IH [OF rest]) simp
  qed
qed

lemma ring_count_zero:
  assumes "k < 2 ^ 31"
  shows "(word_of_nat k = (0 :: 32 word)) = (k = 0)"
proof
  assume "word_of_nat k = (0 :: 32 word)"
  then have "2 ^ LENGTH(32) dvd k" by (simp only: word_of_nat_eq_0_iff)
  moreover have "k < 2 ^ LENGTH(32)" using assms by simp
  ultimately show "k = 0" by (meson dvd_imp_le not_less zero_less_iff_neq_zero)
qed simp

lemma open_sessions_append:
  "open_sessions (xs @ ys) st =
     (case open_sessions xs st of None \<Rightarrow> None | Some st' \<Rightarrow> open_sessions ys st')"
  by (induction xs arbitrary: st) (simp_all split: option.splits)

lemma open_sessions_linestring_adds [simp]:
  "open_sessions (map LinestringAddLocation ls @ cs) st = open_sessions cs st"
  by (induction ls) simp_all

lemma open_sessions_multipolygon_adds [simp]:
  "open_sessions (map MultipolygonAddLocation ls @ cs) st = open_sessions cs st"
  by (induction ls) simp_all

lemma open_sessions_only_adds [simp]:
  "open_sessions (map LinestringAddLocation ls) st = Some st"
  "open_sessions (map MultipolygonAddLocation ls) st = Some st"
  by (induction ls) simp_all

lemma multipolygon_items_sessions:
  assumes "open_sessions (calls s) st0 = Some st"
  shows "case multipolygon_items recording_backend its n s of
           (Inr _, s') \<Rightarrow> open_sessions (calls s') st0 = Some st
         | (Inl e, s') \<Rightarrow> e = invalid_location \<and>
             (open_sessions (calls s') st0 = Some (OuterRingSession # st) \<or>
              open_sessions (calls s') st0 = Some (InnerRingSession # st))"
  using assms
proof (induction its arbitrary: n s)
  case Nil
  then show ?case by (simp add: ok_def)
next
  case (Cons it its)
  show ?case
  proof (cases "is_ring it")
    case False
    show ?thesis
      by (simp only: multipolygon_items_rec_Cons_skip [OF False]) (rule Cons.IH [OF Cons.prems])
  next
    case True
    show ?thesis
    proof (cases "undefined_location \<in> set (ring_points it)")
      case u: True
      show ?thesis
        using Cons.prems
        by (simp only: multipolygon_items_rec_Cons_fail [OF True u])
          (simp add: open_sessions_append)
    next
      case d: False
      show ?thesis
        by (simp only: multipolygon_items_rec_Cons_ok [OF True d])
          (rule Cons.IH, use Cons.prems in \<open>simp add: open_sessions_append\<close>)
    qed
  qed
qed

lemma create_multipolygon_rec:
  "create_multipolygon recording_backend area s =
     (case multipolygon_items recording_backend area 0
             (s\<lparr>calls := calls s @ [MultipolygonStart], rings := []\<rparr>) of
        (Inl e, s') \<Rightarrow> (Inl e, s')
      | (Inr n, s') \<Rightarrow>
          if n = 0 then (Inl (geometry_error ''invalid area''), s')
          else (Inr (rings s'), s'\<lparr>calls := calls s' @ [MultipolygonFinish]\<rparr>))"
  by (simp add: create_multipolygon_def seq_apply and_then_apply rec_multipolygon_start_def
      throw_def rec_multipolygon_finish_def record_call_def split: prod.splits sum.splits)

lemma create_multipolygon_rec_fst:
  assumes "length (filter is_ring area) < 2 ^ 31"
  shows "fst (create_multipolygon recording_backend area s) =
     (if filter is_ring area = [] then Inl (geometry_error ''invalid area'')
      else if \<forall>it \<in> set area. is_ring it \<longrightarrow> undefined_location \<notin> set (ring_points it)
      then Inr (map (\<lambda>it. (ty it, ring_points it)) (filter is_ring area))
      else Inl invalid_location)"
proof -
  let ?s1 = "s\<lparr>calls := calls s @ [MultipolygonStart], rings := []\<rparr>"
  let ?r = "multipolygon_items recording_backend area 0 ?s1"
  have zero: "(word_of_nat (length (filter is_ring area)) = (0 :: 32 word)) =
              (filter is_ring area = [])"
    using ring_count_zero [OF assms] by simp
  have none: "filter is_ring area = [] \<Longrightarrow>
      \<forall>it \<in> set area. is_ring it \<longrightarrow> undefined_location \<notin> set (ring_points it)"
    by (simp add: filter_empty_conv)
  have split: "create_multipolygon recording_backend area s =
     (case ?r of
        (Inl e, s') \<Rightarrow> (Inl e, s')
      | (Inr n, s') \<Rightarrow>
          if n = 0 then (Inl (geometry_error ''invalid area''), s')
          else (Inr (rings s'), s'\<lparr>calls := calls s' @ [MultipolygonFinish]\<rparr>))"
    by (rule create_multipolygon_rec)
  show ?thesis
  proof (cases "\<forall>it \<in> set area. is_ring it \<longrightarrow> undefined_location \<notin> set (ring_points it)")
    case False
    then have "fst ?r = Inl invalid_location" by (simp add: multipolygon_items_fst)
    then obtain s' where "?r = (Inl invalid_location, s')" by (cases ?r) auto
    then show ?thesis using False none by (auto simp: split)
  next
    case True
    then have "fst ?r = Inr (0 + word_of_nat (length (filter is_ring area)))"
      by (simp add: multipolygon_items_fst)
    then obtain s' where r: "?r = (Inr (word_of_nat (length (filter is_ring area))), s')"
      by (cases ?r) auto
    have "rings (snd ?r) = rings ?s1 @ map (\<lambda>it. (ty it, ring_points it)) (filter is_ring area)"
      using True by (rule multipolygon_items_rings)
    then have "rings s' = map (\<lambda>it. (ty it, ring_points it)) (filter is_ring area)"
      by (simp add: r)
    then show ?thesis using True zero by (simp add: split r)
  qed
qed

lemma ring_points_defined:
  "undefined_location \<notin> location ` set (ring_nodes it) \<Longrightarrow>
   ring_points it = remdups_adj (map location (ring_nodes it))"
  by (simp add: ring_points_def collapsed_defined)

lemma set_ring_points: "set (ring_points it) \<subseteq> location ` set (ring_nodes it)"
  using set_collapsed [of "map location (ring_nodes it)"] by (simp add: ring_points_def)

section \<open>The dispatcher with recording handlers\<close>

lemma recurse1_unknown:
  "diff_type d \<notin> {item_type_node, item_type_way, item_type_relation} \<Longrightarrow>
   apply_diff_iterator_recurse1 d h = throw (runtime_error ''unknown type'')"
  by (cases "diff_type d") (simp_all add: apply_diff_iterator_recurse1_def)

lemma recurse_unknown:
  "diff_type d \<notin> {item_type_node, item_type_way, item_type_relation} \<Longrightarrow>
   apply_diff_iterator_recurse d h rest w = (Inl (runtime_error ''unknown type''), w)"
  by (cases rest) (simp_all add: recurse1_unknown seq_apply throw_def)

lemma apply_diff_append:
  "apply_diff (xs @ ys) h rest = seq (apply_diff xs h rest) (apply_diff ys h rest)"
  by (induction xs) (simp_all add: seq_assoc)

lemma recurse1_recording:
  "callback_of (diff_type d) = Some cb \<Longrightarrow>
   apply_diff_iterator_recurse1 d (recording_handler k) w = (Inr (), w @ [(k, cb, d)])"
  by (cases "diff_type d")
     (auto simp: apply_diff_iterator_recurse1_def recording_handler_def)

lemma recurse_recording:
  "callback_of (diff_type d) = Some cb \<Longrightarrow>
   apply_diff_iterator_recurse d (recording_handler k) (map recording_handler ks) w =
     (Inr (), w @ map (\<lambda>j. (j, cb, d)) (k # ks))"
proof (induction ks arbitrary: k w)
  case Nil
  then show ?case by (simp add: recurse1_recording)
next
  case (Cons k' ks)
  show ?case
    using Cons.IH [OF Cons.prems, of k']
    by (simp add: seq_Inr [OF recurse1_recording [OF Cons.prems]])
qed

lemma apply_diff_recording:
  "\<forall>d \<in> set diffs. diff_type d \<in> {item_type_node, item_type_way, item_type_relation} \<Longrightarrow>
   apply_diff diffs (recording_handler k) (map recording_handler ks) w =
     (Inr (), w @ concat (map (\<lambda>d. map (\<lambda>j. (j, the (callback_of (diff_type d)), d)) (k # ks))
                            diffs))"
proof (induction diffs arbitrary: w)
  case Nil
  show ?case by (simp add: ok_def)
next
  case (Cons d diffs)
  then have "diff_type d \<in> {item_type_node, item_type_way, item_type_relation}" by simp
  then have cb: "callback_of (diff_type d) = Some (the (callback_of (diff_type d)))" by auto
  from Cons have rest:
    "\<forall>d \<in> set diffs. diff_type d \<in> {item_type_node, item_type_way, item_type_relation}"
    by simp
  show ?case
    by (simp add: seq_Inr [OF recurse_recording [OF cb]] Cons.IH [OF rest])
qed

lemma length_callbacks:
  "length (concat (map (\<lambda>d. map (f d) hs) diffs)) = length hs * length diffs"
  by (induction diffs) simp_all

section \<open>The tests of test_geojson.cpp, on the recording backend\<close>

text \<open>
  The way of the test \<open>linestring\<close> in its four variants, the way of
  \<open>linestring_with_undefined_location\<close>, the undefined point of \<open>empty_point\<close> and the area
  of \<open>area_2outer_2inner\<close>. Coordinates are in tenths of a degree. The tests \<open>empty_linestring\<close> and
  \<open>linestring_with_two_same_locations\<close> rest on the GeoJSON backend's own check of the
  number of points.
\<close>

lemma test_linestring:
  "fst (create_linestring recording_backend
         [NodeRef 1 (Location 32 42), NodeRef 3 (Location 35 47), NodeRef 4 (Location 35 47),
          NodeRef 2 (Location 36 49)]
         use_nodes_unique direction_forward new_recorder) = Inr [Location 32 42, Location 35 47,
           Location 36 49]"
  "fst (create_linestring recording_backend
         [NodeRef 1 (Location 32 42), NodeRef 3 (Location 35 47), NodeRef 4 (Location 35 47),
          NodeRef 2 (Location 36 49)]
         use_nodes_unique direction_backward new_recorder) = Inr [Location 36 49, Location 35 47,
           Location 32 42]"
  "fst (create_linestring recording_backend
         [NodeRef 1 (Location 32 42), NodeRef 3 (Location 35 47), NodeRef 4 (Location 35 47),
          NodeRef 2 (Location 36 49)]
         use_nodes_all direction_forward new_recorder) = Inr [Location 32 42, Location 35 47,
           Location 35 47, Location 36 49]"
  "fst (create_linestring recording_backend
         [NodeRef 1 (Location 32 42), NodeRef 3 (Location 35 47), NodeRef 4 (Location 35 47),
          NodeRef 2 (Location 36 49)]
         use_nodes_all direction_backward new_recorder) = Inr [Location 36 49, Location 35 47,
           Location 35 47, Location 32 42]"
  by code_simp+

lemma test_linestring_with_undefined_location:
  "fst (create_linestring recording_backend
         [NodeRef 1 (Location 35 47), NodeRef 2 undefined_location]
         use_nodes_unique direction_forward new_recorder) = Inl invalid_location"
  by code_simp

lemma test_empty_point:
  "fst (create_point recording_backend undefined_location new_recorder) = Inl invalid_location"
  by code_simp

lemma test_area_2outer_2inner:
  "fst (create_multipolygon recording_backend
     [Item item_type_outer_ring
        [NodeRef 1 (Location 1 1), NodeRef 2 (Location 91 1), NodeRef 3 (Location 91 91),
         NodeRef 4 (Location 1 91), NodeRef 1 (Location 1 1)],
      Item item_type_inner_ring
        [NodeRef 5 (Location 10 10), NodeRef 6 (Location 40 10), NodeRef 7 (Location 40 40),
         NodeRef 8 (Location 10 40), NodeRef 5 (Location 10 10)],
      Item item_type_inner_ring
        [NodeRef 10 (Location 50 50), NodeRef 11 (Location 50 70), NodeRef 12 (Location 70 70),
         NodeRef 10 (Location 50 50)],
      Item item_type_outer_ring
        [NodeRef 100 (Location 100 100), NodeRef 101 (Location 110 100),
         NodeRef 102 (Location 110 110), NodeRef 103 (Location 100 110),
         NodeRef 100 (Location 100 100)]] new_recorder) =
   Inr [(item_type_outer_ring,
         [Location 1 1, Location 91 1, Location 91 91, Location 1 91, Location 1 1]),
        (item_type_inner_ring,
         [Location 10 10, Location 40 10, Location 40 40, Location 10 40, Location 10 10]),
        (item_type_inner_ring,
         [Location 50 50, Location 50 70, Location 70 70, Location 50 50]),
        (item_type_outer_ring,
         [Location 100 100, Location 110 100, Location 110 110, Location 100 110,
          Location 100 100])]"
  proof -
  let ?area = "[Item item_type_outer_ring
        [NodeRef 1 (Location 1 1), NodeRef 2 (Location 91 1), NodeRef 3 (Location 91 91),
         NodeRef 4 (Location 1 91), NodeRef 1 (Location 1 1)],
      Item item_type_inner_ring
        [NodeRef 5 (Location 10 10), NodeRef 6 (Location 40 10), NodeRef 7 (Location 40 40),
         NodeRef 8 (Location 10 40), NodeRef 5 (Location 10 10)],
      Item item_type_inner_ring
        [NodeRef 10 (Location 50 50), NodeRef 11 (Location 50 70), NodeRef 12 (Location 70 70),
         NodeRef 10 (Location 50 50)],
      Item item_type_outer_ring
        [NodeRef 100 (Location 100 100), NodeRef 101 (Location 110 100),
         NodeRef 102 (Location 110 110), NodeRef 103 (Location 100 110),
         NodeRef 100 (Location 100 100)]]"
  have "length (filter is_ring ?area) < 2 ^ 31" by (simp add: is_ring_def)
  from create_multipolygon_rec_fst [OF this, of new_recorder] show ?thesis
    by (simp add: is_ring_def ring_points_def collapsed_def)
qed

section \<open>The claims\<close>

subsection \<open>C1: backend sessions and exits\<close>

text \<open>
  C1, as stated: every backend session that \<open>create_linestring\<close> or \<open>create_multipolygon\<close>
  opens is closed by its matching finish call exactly once on every exit path, also when
  \<open>geometry_error\<close> or \<open>invalid_location\<close> is raised partway through.

  The engine has no handler and no guard around its start and finish calls. On the way
  nodes of the test \<open>linestring_with_undefined_location\<close> the second
  \<open>linestring_add_location\<close> throws, the call ends there, and \<open>linestring_finish\<close> is
  never called: the linestring session stays open.
\<close>

theorem session_left_open_counterexample:
  "create_linestring recording_backend
      [NodeRef 1 (Location 35 47), NodeRef 2 undefined_location]
      use_nodes_unique direction_forward new_recorder =
    (Inl invalid_location,
     \<lparr>calls = [LinestringStart, LinestringAddLocation (Location 35 47),
               LinestringAddLocation undefined_location],
      points = [Location 35 47], rings = []\<rparr>)
   \<and> LinestringFinish \<notin> set [LinestringStart, LinestringAddLocation (Location 35 47),
               LinestringAddLocation undefined_location]
   \<and> open_sessions [LinestringStart, LinestringAddLocation (Location 35 47),
               LinestringAddLocation undefined_location] [] \<noteq> Some []"
proof -
  have "create_linestring recording_backend
      [NodeRef 1 (Location 35 47), NodeRef 2 undefined_location]
      use_nodes_unique direction_forward new_recorder =
    (Inl invalid_location,
     \<lparr>calls = [LinestringStart, LinestringAddLocation (Location 35 47),
               LinestringAddLocation undefined_location],
      points = [Location 35 47], rings = []\<rparr>)"
    by code_simp
  then show ?thesis by simp
qed

text \<open>
  C1, amended: a construction call that returns has closed every session it opened, once,
  by the matching finish call. A call that throws closes nothing more: when
  \<open>invalid_location\<close> is raised the linestring session, or the ring session and the
  multipolygon session around it, are left open, and when \<open>geometry_error\<close> is raised for
  an area without rings the multipolygon session is left open. The log starts empty, so
  the sessions are those of the one call.
\<close>

theorem sessions_closed_on_return_only:
  "(case create_linestring recording_backend wnl un dir (s\<lparr>calls := []\<rparr>) of
      (Inr l, s') \<Rightarrow> open_sessions (calls s') [] = Some []
    | (Inl e, s') \<Rightarrow> e = invalid_location \<and>
        open_sessions (calls s') [] = Some [LinestringSession])
   \<and> (case create_multipolygon recording_backend area (s\<lparr>calls := []\<rparr>) of
      (Inr m, s') \<Rightarrow> open_sessions (calls s') [] = Some []
    | (Inl e, s') \<Rightarrow>
        (e = geometry_error ''invalid area'' \<and>
           open_sessions (calls s') [] = Some [MultipolygonSession]) \<or>
        (e = invalid_location \<and>
           (open_sessions (calls s') [] = Some [OuterRingSession, MultipolygonSession] \<or>
            open_sessions (calls s') [] = Some [InnerRingSession, MultipolygonSession])))"
proof
  show "case create_linestring recording_backend wnl un dir (s\<lparr>calls := []\<rparr>) of
      (Inr l, s') \<Rightarrow> open_sessions (calls s') [] = Some []
    | (Inl e, s') \<Rightarrow> e = invalid_location \<and>
        open_sessions (calls s') [] = Some [LinestringSession]"
  proof (cases "undefined_location \<in> set (locations_passed un dir wnl)")
    case True
    then show ?thesis by (simp add: create_linestring_rec_fail)
  next
    case False
    then show ?thesis by (simp add: create_linestring_rec_ok)
  qed
next
  let ?s1 = "s\<lparr>calls := [MultipolygonStart], rings := []\<rparr>"
  have "open_sessions (calls ?s1) [] = Some [MultipolygonSession]" by simp
  from multipolygon_items_sessions [OF this, of area 0]
  show "case create_multipolygon recording_backend area (s\<lparr>calls := []\<rparr>) of
      (Inr m, s') \<Rightarrow> open_sessions (calls s') [] = Some []
    | (Inl e, s') \<Rightarrow>
        (e = geometry_error ''invalid area'' \<and>
           open_sessions (calls s') [] = Some [MultipolygonSession]) \<or>
        (e = invalid_location \<and>
           (open_sessions (calls s') [] = Some [OuterRingSession, MultipolygonSession] \<or>
            open_sessions (calls s') [] = Some [InnerRingSession, MultipolygonSession]))"
    by (auto simp: create_multipolygon_rec open_sessions_append split: prod.splits sum.splits)
qed

subsection \<open>C2: backward is the reverse of forward\<close>

text \<open>
  Away from a first or last node without a Location the two directions agree: for a node
  sequence of at most \<open>2 ^ 31\<close> nodes (the backward index is an \<open>int\<close>), the backward call
  gives the reverse of what the forward call gives when \<open>use_nodes\<close> is \<open>all\<close>, and when
  \<open>use_nodes\<close> is \<open>unique\<close> and the first and the last node have a Location. An undefined
  Location elsewhere makes both calls throw \<open>invalid_location\<close>, which \<open>map_sum id rev\<close>
  leaves as it is.
\<close>

lemma backward_is_reverse_when_ends_defined:
  assumes "length wnl \<le> 2 ^ 31"
    and "un = use_nodes_all \<or> wnl = [] \<or>
         (location (hd wnl) \<noteq> undefined_location \<and> location (last wnl) \<noteq> undefined_location)"
  shows "fst (create_linestring recording_backend wnl un direction_backward s) =
         map_sum id rev (fst (create_linestring recording_backend wnl un direction_forward s))"
proof -
  have rev_passed: "locations_passed un direction_backward wnl =
                    rev (locations_passed un direction_forward wnl)"
  proof (cases "un = use_nodes_all \<or> wnl = []")
    case True
    then show ?thesis
      using assms(1) by (auto simp: locations_passed_def locations_visited_backward)
  next
    case False
    with assms(2) have ne: "wnl \<noteq> []"
      and h: "location (hd wnl) \<noteq> undefined_location"
      and l: "location (last wnl) \<noteq> undefined_location"
      by auto
    have hd_defined: "collapsed ls = remdups_adj ls"
      if "ls \<noteq> []" "hd ls \<noteq> undefined_location" for ls
      using that by (cases ls) (simp_all add: collapsed_Cons)
    have f: "collapsed (map location wnl) = remdups_adj (map location wnl)"
      using ne h by (intro hd_defined) (simp_all add: hd_map)
    have "hd (rev (map location wnl)) = location (last wnl)"
      using ne by (simp add: hd_rev last_map)
    then have "collapsed (rev (map location wnl)) = remdups_adj (rev (map location wnl))"
      using ne l by (intro hd_defined) simp_all
    with f show ?thesis
      using assms(1) by (simp add: locations_passed_def locations_visited_backward)
  qed
  show ?thesis
  proof (cases "undefined_location \<in> set (locations_passed un direction_forward wnl)")
    case True
    then have b: "undefined_location \<in> set (locations_passed un direction_backward wnl)"
      by (simp add: rev_passed)
    show ?thesis
      by (simp add: create_linestring_rec_fail [OF True] create_linestring_rec_fail [OF b])
  next
    case False
    then have b: "undefined_location \<notin> set (locations_passed un direction_backward wnl)"
      by (simp add: rev_passed)
    show ?thesis
      by (simp add: create_linestring_rec_ok [OF False] create_linestring_rec_ok [OF b] rev_passed)
  qed
qed

text \<open>
  C2: for every node sequence and both values of \<open>use_nodes\<close>, the coordinates of the
  backward linestring are the reverse of the coordinates of the forward one.

  The code breaks this where a node without a Location is visited first in one direction
  and later in the other. The \<open>unique\<close> loops start with \<open>last_location\<close> undefined, so
  they drop such a node when it comes first, although it repeats no node before it; at any
  later position they pass it to the backend, which throws, and so do the \<open>all\<close> loops at
  every position. For the way \<open>[undefined, (3.2, 4.2), (3.5, 4.7)]\<close> the forward call with
  \<open>unique\<close> returns two coordinates and the backward call throws \<open>invalid_location\<close>,
  where with \<open>all\<close> both calls throw. The way of the test
  \<open>linestring_with_undefined_location\<close>, for which the test expects
  \<open>invalid_location\<close>, gives a linestring of one coordinate and no error when it is read
  backward with \<open>unique\<close>.
\<close>

theorem backward_differs_at_leading_undefined:
  "fst (create_linestring recording_backend
          [NodeRef 1 undefined_location, NodeRef 2 (Location 32 42), NodeRef 3 (Location 35 47)]
          use_nodes_unique direction_forward new_recorder) = Inr [Location 32 42, Location 35 47]
   \<and> fst (create_linestring recording_backend
          [NodeRef 1 undefined_location, NodeRef 2 (Location 32 42), NodeRef 3 (Location 35 47)]
          use_nodes_unique direction_backward new_recorder) = Inl invalid_location
   \<and> fst (create_linestring recording_backend
          [NodeRef 1 undefined_location, NodeRef 2 (Location 32 42), NodeRef 3 (Location 35 47)]
          use_nodes_unique direction_backward new_recorder) \<noteq>
       map_sum id rev (fst (create_linestring recording_backend
          [NodeRef 1 undefined_location, NodeRef 2 (Location 32 42), NodeRef 3 (Location 35 47)]
          use_nodes_unique direction_forward new_recorder))
   \<and> fst (create_linestring recording_backend
          [NodeRef 1 undefined_location, NodeRef 2 (Location 32 42), NodeRef 3 (Location 35 47)]
          use_nodes_all direction_forward new_recorder) = Inl invalid_location
   \<and> fst (create_linestring recording_backend
          [NodeRef 1 undefined_location, NodeRef 2 (Location 32 42), NodeRef 3 (Location 35 47)]
          use_nodes_all direction_backward new_recorder) = Inl invalid_location
   \<and> fst (create_linestring recording_backend
          [NodeRef 1 (Location 35 47), NodeRef 2 undefined_location]
          use_nodes_unique direction_forward new_recorder) = Inl invalid_location
   \<and> fst (create_linestring recording_backend
          [NodeRef 1 (Location 35 47), NodeRef 2 undefined_location]
          use_nodes_unique direction_backward new_recorder) = Inr [Location 35 47]"
proof -
  have f: "fst (create_linestring recording_backend
          [NodeRef 1 undefined_location, NodeRef 2 (Location 32 42), NodeRef 3 (Location 35 47)]
          use_nodes_unique direction_forward new_recorder) = Inr [Location 32 42, Location 35 47]"
    by code_simp
  have b: "fst (create_linestring recording_backend
          [NodeRef 1 undefined_location, NodeRef 2 (Location 32 42), NodeRef 3 (Location 35 47)]
          use_nodes_unique direction_backward new_recorder) = Inl invalid_location"
    by code_simp
  have af: "fst (create_linestring recording_backend
          [NodeRef 1 undefined_location, NodeRef 2 (Location 32 42), NodeRef 3 (Location 35 47)]
          use_nodes_all direction_forward new_recorder) = Inl invalid_location"
    by code_simp
  have ab: "fst (create_linestring recording_backend
          [NodeRef 1 undefined_location, NodeRef 2 (Location 32 42), NodeRef 3 (Location 35 47)]
          use_nodes_all direction_backward new_recorder) = Inl invalid_location"
    by code_simp
  have tf: "fst (create_linestring recording_backend
          [NodeRef 1 (Location 35 47), NodeRef 2 undefined_location]
          use_nodes_unique direction_forward new_recorder) = Inl invalid_location"
    by code_simp
  have tb: "fst (create_linestring recording_backend
          [NodeRef 1 (Location 35 47), NodeRef 2 undefined_location]
          use_nodes_unique direction_backward new_recorder) = Inr [Location 35 47]"
    by code_simp
  show ?thesis by (simp only: f b af ab tf tb) simp
qed

subsection \<open>C3: \<open>unique\<close> drops adjacent repeats only\<close>

text \<open>
  C3: with \<open>use_nodes\<close> \<open>unique\<close>, in either direction, \<open>create_linestring\<close> passes a Location
  to the backend only if it differs from the Location it passed just before, so no two
  consecutive Locations of the \<open>linestring_add_location\<close> calls are equal; a Location that
  comes back later, as the first point of a closed ring does at its end, is passed again.
  When every Location is defined, what is passed is the visited list with each run of
  equal neighbours shortened to one (\<open>remdups_adj\<close>), and that is the linestring.
\<close>

theorem create_linestring_unique_collapses:
  "distinct_adj (linestring_locations (calls (snd
      (create_linestring recording_backend wnl use_nodes_unique dir (s\<lparr>calls := []\<rparr>)))))
   \<and> (undefined_location \<notin> location ` set wnl \<longrightarrow>
        linestring_locations (calls (snd
          (create_linestring recording_backend wnl use_nodes_unique direction_forward
             (s\<lparr>calls := []\<rparr>)))) = remdups_adj (map location wnl)
        \<and> fst (create_linestring recording_backend wnl use_nodes_unique direction_forward s) =
            Inr (remdups_adj (map location wnl)))
   \<and> (undefined_location \<notin> location ` set wnl \<and> length wnl \<le> 2 ^ 31 \<longrightarrow>
        linestring_locations (calls (snd
          (create_linestring recording_backend wnl use_nodes_unique direction_backward
             (s\<lparr>calls := []\<rparr>)))) = remdups_adj (rev (map location wnl))
        \<and> fst (create_linestring recording_backend wnl use_nodes_unique direction_backward s) =
            Inr (remdups_adj (rev (map location wnl))))"
proof (intro conjI impI)
  show "distinct_adj (linestring_locations (calls (snd
      (create_linestring recording_backend wnl use_nodes_unique dir (s\<lparr>calls := []\<rparr>)))))"
    using distinct_adj_locations_passed_unique [of dir wnl]
    by (simp add: linestring_locations_create_linestring distinct_adj_until_undefined)
next
  assume d: "undefined_location \<notin> location ` set wnl"
  then have p: "undefined_location \<notin> set (locations_passed use_nodes_unique direction_forward wnl)"
    using set_locations_passed by blast
  show "linestring_locations (calls (snd
          (create_linestring recording_backend wnl use_nodes_unique direction_forward
             (s\<lparr>calls := []\<rparr>)))) = remdups_adj (map location wnl)"
    using p by (simp add: linestring_locations_create_linestring locations_passed_defined(1) [OF d])
  show "fst (create_linestring recording_backend wnl use_nodes_unique direction_forward s) =
            Inr (remdups_adj (map location wnl))"
    using p by (simp add: create_linestring_rec_ok locations_passed_defined(1) [OF d])
next
  assume "undefined_location \<notin> location ` set wnl \<and> length wnl \<le> 2 ^ 31"
  then have d: "undefined_location \<notin> location ` set wnl" and n: "length wnl \<le> 2 ^ 31"
    by simp_all
  then have p: "undefined_location \<notin> set (locations_passed use_nodes_unique direction_backward wnl)"
    using set_locations_passed by blast
  show "linestring_locations (calls (snd
          (create_linestring recording_backend wnl use_nodes_unique direction_backward
             (s\<lparr>calls := []\<rparr>)))) = remdups_adj (rev (map location wnl))"
    using p by (simp add: linestring_locations_create_linestring locations_passed_defined(2) [OF d n])
  show "fst (create_linestring recording_backend wnl use_nodes_unique direction_backward s) =
            Inr (remdups_adj (rev (map location wnl)))"
    using p by (simp add: create_linestring_rec_ok locations_passed_defined(2) [OF d n])
qed

text \<open>A closed ring with one doubled node: the doubled node is dropped, the closing one kept.\<close>

theorem create_linestring_unique_collapses_witness:
  "undefined_location \<notin> location `
      set [NodeRef 1 (Location 32 42), NodeRef 2 (Location 35 47), NodeRef 3 (Location 35 47),
           NodeRef 4 (Location 36 49),
           NodeRef 1 (Location 32 42)]
   \<and> length [NodeRef 1 (Location 32 42), NodeRef 2 (Location 35 47),
                  NodeRef 3 (Location 35 47), NodeRef 4 (Location 36 49),
           NodeRef 1 (Location 32 42)] \<le> 2 ^ 31
   \<and> fst (create_linestring recording_backend
        [NodeRef 1 (Location 32 42), NodeRef 2 (Location 35 47), NodeRef 3 (Location 35 47),
         NodeRef 4 (Location 36 49),
         NodeRef 1 (Location 32 42)] use_nodes_unique direction_forward new_recorder) =
       Inr [Location 32 42, Location 35 47, Location 36 49, Location 32 42]
   \<and> fst (create_linestring recording_backend
        [NodeRef 1 (Location 32 42), NodeRef 2 (Location 35 47), NodeRef 3 (Location 35 47),
         NodeRef 4 (Location 36 49),
         NodeRef 1 (Location 32 42)] use_nodes_unique direction_backward new_recorder) =
       Inr [Location 32 42, Location 36 49, Location 35 47, Location 32 42]"
proof -
  have def: "undefined_location \<notin> location `
      set [NodeRef 1 (Location 32 42), NodeRef 2 (Location 35 47), NodeRef 3 (Location 35 47),
           NodeRef 4 (Location 36 49),
           NodeRef 1 (Location 32 42)]"
    by simp
  have len: "length [NodeRef 1 (Location 32 42), NodeRef 2 (Location 35 47),
                     NodeRef 3 (Location 35 47), NodeRef 4 (Location 36 49),
           NodeRef 1 (Location 32 42)] \<le> 2 ^ 31"
    by simp
  from create_linestring_unique_collapses
         [of "[NodeRef 1 (Location 32 42), NodeRef 2 (Location 35 47),
          NodeRef 3 (Location 35 47), NodeRef 4 (Location 36 49),
               NodeRef 1 (Location 32 42)]" direction_forward new_recorder] def len
  show ?thesis by simp
qed

subsection \<open>C4: rings are always collapsed\<close>

text \<open>
  C4: \<open>create_multipolygon\<close> has no \<open>use_nodes\<close> parameter; for every ring that its loop
  comes to, outer or inner, \<open>add_points\<close> passes the ring's Locations to
  \<open>multipolygon_add_location\<close> with adjacent repeats dropped, for every backend. No two Locations passed in a row are equal, and a Location
  that comes back later, as the one that closes the ring, is passed again: for a ring
  whose Locations are all defined what is passed is the ring's list with each run of equal
  neighbours shortened to one, and the multipolygon of an area with defined Locations
  (and fewer than \<open>2 ^ 31\<close> rings, the range of the counter) has exactly these rings.
\<close>

theorem multipolygon_rings_collapse_duplicates:
  "add_points G nodes = emit (multipolygon_add_location G) (collapsed (map location nodes))
   \<and> distinct_adj (collapsed (map location nodes))
   \<and> (undefined_location \<notin> location ` set nodes \<longrightarrow>
        collapsed (map location nodes) = remdups_adj (map location nodes))
   \<and> (ty it = item_type_outer_ring \<longrightarrow>
        multipolygon_items G (it # its) num_rings =
          seq (multipolygon_outer_ring_start G)
            (seq (emit (multipolygon_add_location G) (collapsed (map location (ring_nodes it))))
              (seq (multipolygon_outer_ring_finish G)
                (multipolygon_items G its (num_rings + 1)))))
   \<and> (ty it = item_type_inner_ring \<longrightarrow>
        multipolygon_items G (it # its) num_rings =
          seq (multipolygon_inner_ring_start G)
            (seq (emit (multipolygon_add_location G) (collapsed (map location (ring_nodes it))))
              (seq (multipolygon_inner_ring_finish G)
                (multipolygon_items G its (num_rings + 1)))))
   \<and> (filter is_ring area \<noteq> [] \<and> length (filter is_ring area) < 2 ^ 31 \<and>
      (\<forall>it \<in> set area. is_ring it \<longrightarrow> undefined_location \<notin> location ` set (ring_nodes it)) \<longrightarrow>
        fst (create_multipolygon recording_backend area s) =
          Inr (map (\<lambda>it. (ty it, remdups_adj (map location (ring_nodes it))))
                 (filter is_ring area)))"
proof (intro conjI impI)
  show "add_points G nodes = emit (multipolygon_add_location G) (collapsed (map location nodes))"
    by (rule add_points_emit)
next
  assume "ty it = item_type_outer_ring"
  then show "multipolygon_items G (it # its) num_rings =
          seq (multipolygon_outer_ring_start G)
            (seq (emit (multipolygon_add_location G) (collapsed (map location (ring_nodes it))))
              (seq (multipolygon_outer_ring_finish G)
                (multipolygon_items G its (num_rings + 1))))"
    by (simp add: add_points_emit)
next
  assume "ty it = item_type_inner_ring"
  then show "multipolygon_items G (it # its) num_rings =
          seq (multipolygon_inner_ring_start G)
            (seq (emit (multipolygon_add_location G) (collapsed (map location (ring_nodes it))))
              (seq (multipolygon_inner_ring_finish G)
                (multipolygon_items G its (num_rings + 1))))"
    by (simp add: add_points_emit)
next
  show "distinct_adj (collapsed (map location nodes))"
    by (rule distinct_adj_collapsed)
next
  assume "undefined_location \<notin> location ` set nodes"
  then show "collapsed (map location nodes) = remdups_adj (map location nodes)"
    by (simp add: collapsed_defined)
next
  assume a: "filter is_ring area \<noteq> [] \<and> length (filter is_ring area) < 2 ^ 31 \<and>
      (\<forall>it \<in> set area. is_ring it \<longrightarrow> undefined_location \<notin> location ` set (ring_nodes it))"
  then have len: "length (filter is_ring area) < 2 ^ 31" by simp
  from a have d: "\<forall>it \<in> set area. is_ring it \<longrightarrow> undefined_location \<notin> set (ring_points it)"
    using set_ring_points by blast
  have "map (\<lambda>it. (ty it, ring_points it)) (filter is_ring area) =
        map (\<lambda>it. (ty it, remdups_adj (map location (ring_nodes it)))) (filter is_ring area)"
    using a by (simp add: ring_points_defined)
  then show "fst (create_multipolygon recording_backend area s) =
          Inr (map (\<lambda>it. (ty it, remdups_adj (map location (ring_nodes it))))
                 (filter is_ring area))"
    using a d by (simp add: create_multipolygon_rec_fst [OF len])
qed

text \<open>The outer ring of the test \<open>area_1outer_0inner\<close>, with its second node doubled.\<close>

theorem multipolygon_rings_collapse_duplicates_witness:
  "undefined_location \<notin> location `
      set [NodeRef 1 (Location 32 42), NodeRef 2 (Location 35 47), NodeRef 2 (Location 35 47),
           NodeRef 3 (Location 36 49), NodeRef 1 (Location 32 42)]
   \<and> collapsed (map location
        [NodeRef 1 (Location 32 42), NodeRef 2 (Location 35 47), NodeRef 2 (Location 35 47),
         NodeRef 3 (Location 36 49), NodeRef 1 (Location 32 42)]) =
       [Location 32 42, Location 35 47, Location 36 49, Location 32 42]
   \<and> filter is_ring [Item item_type_outer_ring
        [NodeRef 1 (Location 32 42), NodeRef 2 (Location 35 47), NodeRef 2 (Location 35 47),
         NodeRef 3 (Location 36 49), NodeRef 1 (Location 32 42)]] \<noteq> []
   \<and> fst (create_multipolygon recording_backend
        [Item item_type_outer_ring
          [NodeRef 1 (Location 32 42), NodeRef 2 (Location 35 47), NodeRef 2 (Location 35 47),
           NodeRef 3 (Location 36 49), NodeRef 1 (Location 32 42)]] new_recorder) =
       Inr [(item_type_outer_ring,
             [Location 32 42, Location 35 47, Location 36 49, Location 32 42])]
   \<and> calls (snd (multipolygon_items recording_backend
        [Item item_type_outer_ring
           [NodeRef 1 (Location 32 42), NodeRef 2 (Location 32 42), NodeRef 3 (Location 35 47)]]
        0 new_recorder)) =
       [MultipolygonOuterRingStart, MultipolygonAddLocation (Location 32 42),
        MultipolygonAddLocation (Location 35 47), MultipolygonOuterRingFinish]
   \<and> calls (snd (multipolygon_items recording_backend
        [Item item_type_inner_ring
           [NodeRef 1 (Location 32 42), NodeRef 2 (Location 32 42), NodeRef 3 (Location 35 47)]]
        0 new_recorder)) =
       [MultipolygonInnerRingStart, MultipolygonAddLocation (Location 32 42),
        MultipolygonAddLocation (Location 35 47), MultipolygonInnerRingFinish]"
proof -
  let ?ring = "[NodeRef 1 (Location 32 42), NodeRef 2 (Location 35 47),
                NodeRef 2 (Location 35 47),
                NodeRef 3 (Location 36 49), NodeRef 1 (Location 32 42)]"
  let ?area = "[Item item_type_outer_ring ?ring]"
  let ?short = "[NodeRef 1 (Location 32 42), NodeRef 2 (Location 32 42),
                 NodeRef 3 (Location 35 47)]"
  have def: "undefined_location \<notin> location ` set ?ring" by simp
  have ne: "filter is_ring ?area \<noteq> []" by (simp add: is_ring_def)
  have len: "length (filter is_ring ?area) < 2 ^ 31" by (simp add: is_ring_def)
  have all: "\<forall>it \<in> set ?area. is_ring it \<longrightarrow> undefined_location \<notin> location ` set (ring_nodes it)"
    by simp
  from multipolygon_rings_collapse_duplicates
         [where G = recording_backend and nodes = ?ring and area = ?area and s = new_recorder]
       def ne len all
  have 1: "collapsed (map location ?ring) =
             [Location 32 42, Location 35 47, Location 36 49, Location 32 42]
           \<and> fst (create_multipolygon recording_backend ?area new_recorder) =
             Inr [(item_type_outer_ring,
                   [Location 32 42, Location 35 47, Location 36 49, Location 32 42])]"
    by (simp add: is_ring_def collapsed_def)
  have outer: "ty (Item item_type_outer_ring ?short) = item_type_outer_ring" by simp
  have inner: "ty (Item item_type_inner_ring ?short) = item_type_inner_ring" by simp
  from multipolygon_rings_collapse_duplicates
         [where G = recording_backend and it = "Item item_type_outer_ring ?short"
            and its = "[]" and num_rings = 0] outer
  have "multipolygon_items recording_backend [Item item_type_outer_ring ?short] 0 =
          seq (multipolygon_outer_ring_start recording_backend)
            (seq (emit (multipolygon_add_location recording_backend)
                    (collapsed (map location (ring_nodes (Item item_type_outer_ring ?short)))))
              (seq (multipolygon_outer_ring_finish recording_backend)
                (multipolygon_items recording_backend [] (0 + 1))))"
    by blast
  then have 2: "calls (snd (multipolygon_items recording_backend
                   [Item item_type_outer_ring ?short] 0 new_recorder)) =
       [MultipolygonOuterRingStart, MultipolygonAddLocation (Location 32 42),
        MultipolygonAddLocation (Location 35 47), MultipolygonOuterRingFinish]"
    by (simp add: collapsed_def seq_apply rec_start_def rec_add_location_def record_call_def
        rec_ring_finish_def ok_def new_recorder_def)
  from multipolygon_rings_collapse_duplicates
         [where G = recording_backend and it = "Item item_type_inner_ring ?short"
            and its = "[]" and num_rings = 0] inner
  have "multipolygon_items recording_backend [Item item_type_inner_ring ?short] 0 =
          seq (multipolygon_inner_ring_start recording_backend)
            (seq (emit (multipolygon_add_location recording_backend)
                    (collapsed (map location (ring_nodes (Item item_type_inner_ring ?short)))))
              (seq (multipolygon_inner_ring_finish recording_backend)
                (multipolygon_items recording_backend [] (0 + 1))))"
    by blast
  then have 3: "calls (snd (multipolygon_items recording_backend
                   [Item item_type_inner_ring ?short] 0 new_recorder)) =
       [MultipolygonInnerRingStart, MultipolygonAddLocation (Location 32 42),
        MultipolygonAddLocation (Location 35 47), MultipolygonInnerRingFinish]"
    by (simp add: collapsed_def seq_apply rec_start_def rec_add_location_def record_call_def
        rec_ring_finish_def ok_def new_recorder_def)
  from def ne 1 2 3 show ?thesis by blast
qed

subsection \<open>C5: the invalid area\<close>

text \<open>
  C5, as stated: \<open>create_multipolygon\<close> fails with \<open>geometry_error("invalid area")\<close> if and
  only if no ring was counted, and with at least one ring it completes the multipolygon
  session and returns the backend's result.

  The first half holds. The second does not: a ring can hold an undefined Location, the
  backend then throws \<open>invalid_location\<close> from \<open>multipolygon_add_location\<close>, and
  \<open>multipolygon_finish\<close> is never reached.
\<close>

theorem ring_present_not_completed_counterexample:
  "filter is_ring [Item item_type_outer_ring [NodeRef 1 (Location 32 42),
                   NodeRef 2 undefined_location]]
     \<noteq> []
   \<and> create_multipolygon recording_backend
        [Item item_type_outer_ring [NodeRef 1 (Location 32 42), NodeRef 2 undefined_location]]
        new_recorder =
      (Inl invalid_location,
       \<lparr>calls = [MultipolygonStart, MultipolygonOuterRingStart,
                 MultipolygonAddLocation (Location 32 42),
                 MultipolygonAddLocation undefined_location],
        points = [Location 32 42], rings = []\<rparr>)
   \<and> MultipolygonFinish \<notin> set [MultipolygonStart, MultipolygonOuterRingStart,
                 MultipolygonAddLocation (Location 32 42),
                 MultipolygonAddLocation undefined_location]"
proof -
  have "create_multipolygon recording_backend
        [Item item_type_outer_ring [NodeRef 1 (Location 32 42), NodeRef 2 undefined_location]]
        new_recorder =
      (Inl invalid_location,
       \<lparr>calls = [MultipolygonStart, MultipolygonOuterRingStart,
                 MultipolygonAddLocation (Location 32 42),
                 MultipolygonAddLocation undefined_location],
        points = [Location 32 42], rings = []\<rparr>)"
    by code_simp
  then show ?thesis by (simp add: is_ring_def)
qed

text \<open>
  C5, amended: for an area with fewer than \<open>2 ^ 31\<close> rings (the range of the counter
  \<open>num_rings\<close>), \<open>create_multipolygon\<close> fails with \<open>geometry_error("invalid area")\<close> if and
  only if the area has no outer and no inner ring. With at least one ring, and no undefined
  Location among those that \<open>add_points\<close> passes on, it runs the items, ends with
  \<open>multipolygon_finish\<close> and returns its result, the collected rings; with at least one
  ring and an undefined Location among those passed on, it fails with \<open>invalid_location\<close>.
\<close>

theorem create_multipolygon_invalid_area:
  assumes "length (filter is_ring area) < 2 ^ 31"
  shows "(fst (create_multipolygon recording_backend area s) =
            Inl (geometry_error ''invalid area'')) = (filter is_ring area = [])
    \<and> (filter is_ring area \<noteq> [] \<and>
        (\<forall>it \<in> set area. is_ring it \<longrightarrow> undefined_location \<notin> set (ring_points it)) \<longrightarrow>
          create_multipolygon recording_backend area s =
            and_then (multipolygon_items recording_backend area 0)
              (\<lambda>num_rings. multipolygon_finish recording_backend)
              (snd (multipolygon_start recording_backend s))
          \<and> fst (create_multipolygon recording_backend area s) =
               Inr (map (\<lambda>it. (ty it, ring_points it)) (filter is_ring area)))
    \<and> (filter is_ring area \<noteq> [] \<and>
        (\<exists>it \<in> set area. is_ring it \<and> undefined_location \<in> set (ring_points it)) \<longrightarrow>
          fst (create_multipolygon recording_backend area s) = Inl invalid_location)"
proof (intro conjI impI)
  show "(fst (create_multipolygon recording_backend area s) =
            Inl (geometry_error ''invalid area'')) = (filter is_ring area = [])"
    by (simp add: create_multipolygon_rec_fst [OF assms])
next
  assume a: "filter is_ring area \<noteq> [] \<and>
        (\<forall>it \<in> set area. is_ring it \<longrightarrow> undefined_location \<notin> set (ring_points it))"
  then show "fst (create_multipolygon recording_backend area s) =
               Inr (map (\<lambda>it. (ty it, ring_points it)) (filter is_ring area))"
    by (simp add: create_multipolygon_rec_fst [OF assms])
  let ?s1 = "s\<lparr>calls := calls s @ [MultipolygonStart], rings := []\<rparr>"
  let ?r = "multipolygon_items recording_backend area 0 ?s1"
  from a have "fst ?r = Inr (0 + word_of_nat (length (filter is_ring area)))"
    by (simp add: multipolygon_items_fst)
  then obtain s' where r: "?r = (Inr (word_of_nat (length (filter is_ring area))), s')"
    by (cases ?r) auto
  have "word_of_nat (length (filter is_ring area)) \<noteq> (0 :: 32 word)"
    using ring_count_zero [OF assms] a by simp
  then show "create_multipolygon recording_backend area s =
            and_then (multipolygon_items recording_backend area 0)
              (\<lambda>num_rings. multipolygon_finish recording_backend)
              (snd (multipolygon_start recording_backend s))"
    by (simp add: create_multipolygon_rec and_then_apply r rec_multipolygon_start_def
        record_call_def rec_multipolygon_finish_def)
next
  assume "filter is_ring area \<noteq> [] \<and>
        (\<exists>it \<in> set area. is_ring it \<and> undefined_location \<in> set (ring_points it))"
  then show "fst (create_multipolygon recording_backend area s) = Inl invalid_location"
    by (auto simp: create_multipolygon_rec_fst [OF assms])
qed

text \<open>
  The area of the test \<open>area_1outer_1inner\<close> (coordinates times ten), and an area whose
  ring has an undefined Location.
\<close>

theorem create_multipolygon_invalid_area_witness:
  "length (filter is_ring
      [Item item_type_outer_ring
         [NodeRef 1 (Location 1 1), NodeRef 2 (Location 91 1), NodeRef 3 (Location 91 91),
          NodeRef 4 (Location 1 91), NodeRef 1 (Location 1 1)],
       Item item_type_inner_ring
         [NodeRef 5 (Location 10 10), NodeRef 6 (Location 80 10), NodeRef 7 (Location 80 80),
          NodeRef 8 (Location 10 80), NodeRef 5 (Location 10 10)]]) < 2 ^ 31
   \<and> fst (create_multipolygon recording_backend
      [Item item_type_outer_ring
         [NodeRef 1 (Location 1 1), NodeRef 2 (Location 91 1), NodeRef 3 (Location 91 91),
          NodeRef 4 (Location 1 91), NodeRef 1 (Location 1 1)],
       Item item_type_inner_ring
         [NodeRef 5 (Location 10 10), NodeRef 6 (Location 80 10), NodeRef 7 (Location 80 80),
          NodeRef 8 (Location 10 80), NodeRef 5 (Location 10 10)]] new_recorder) =
     Inr [(item_type_outer_ring,
           [Location 1 1, Location 91 1, Location 91 91, Location 1 91, Location 1 1]),
          (item_type_inner_ring,
           [Location 10 10, Location 80 10, Location 80 80, Location 10 80, Location 10 10])]
   \<and> fst (create_multipolygon recording_backend
      [Item item_type_outer_ring [NodeRef 1 (Location 32 42), NodeRef 2 undefined_location]]
      new_recorder) = Inl invalid_location
   \<and> fst (create_multipolygon recording_backend [] new_recorder) =
       Inl (geometry_error ''invalid area'')"
proof -
  let ?area = "[Item item_type_outer_ring
         [NodeRef 1 (Location 1 1), NodeRef 2 (Location 91 1), NodeRef 3 (Location 91 91),
          NodeRef 4 (Location 1 91), NodeRef 1 (Location 1 1)],
       Item item_type_inner_ring
         [NodeRef 5 (Location 10 10), NodeRef 6 (Location 80 10), NodeRef 7 (Location 80 80),
          NodeRef 8 (Location 10 80), NodeRef 5 (Location 10 10)]]"
  let ?bad = "[Item item_type_outer_ring [NodeRef 1 (Location 32 42),
               NodeRef 2 undefined_location]]"
  have len: "length (filter is_ring ?area) < 2 ^ 31" by (simp add: is_ring_def)
  have len': "length (filter is_ring ?bad) < 2 ^ 31" by (simp add: is_ring_def)
  have len0: "length (filter is_ring ([] :: item list)) < 2 ^ 31" by simp
  have ok: "filter is_ring ?area \<noteq> [] \<and>
        (\<forall>it \<in> set ?area. is_ring it \<longrightarrow> undefined_location \<notin> set (ring_points it))"
    by (simp add: is_ring_def ring_points_def collapsed_def)
  have bad: "filter is_ring ?bad \<noteq> [] \<and>
        (\<exists>it \<in> set ?bad. is_ring it \<and> undefined_location \<in> set (ring_points it))"
    by (simp add: is_ring_def ring_points_def collapsed_def)
  from create_multipolygon_invalid_area [OF len, of new_recorder] ok
  have "fst (create_multipolygon recording_backend ?area new_recorder) =
          Inr (map (\<lambda>it. (ty it, ring_points it)) (filter is_ring ?area))"
    by blast
  then have 1: "fst (create_multipolygon recording_backend ?area new_recorder) =
     Inr [(item_type_outer_ring,
           [Location 1 1, Location 91 1, Location 91 91, Location 1 91, Location 1 1]),
          (item_type_inner_ring,
           [Location 10 10, Location 80 10, Location 80 80, Location 10 80, Location 10 10])]"
    by (simp add: is_ring_def ring_points_def collapsed_def)
  from create_multipolygon_invalid_area [OF len', of new_recorder] bad
  have 2: "fst (create_multipolygon recording_backend ?bad new_recorder) = Inl invalid_location"
    by blast
  from create_multipolygon_invalid_area [OF len0, of new_recorder]
  have 3: "fst (create_multipolygon recording_backend [] new_recorder) =
       Inl (geometry_error ''invalid area'')"
    by simp
  from len 1 2 3 show ?thesis by blast
qed

subsection \<open>C6: every handler sees every diff, in order\<close>

text \<open>
  C6: with N handlers and the M DiffObjects of one \<open>apply_diff\<close> call, each of a legal
  kind, the dispatcher makes exactly N times M callbacks: for each DiffObject in the order
  of the stream, and for it each handler in the order of registration, the callback of the
  DiffObject's kind. The handlers here are the recording handlers numbered \<open>k # ks\<close>, and
  the log they share is the sequence of the callbacks made; the stream is gone through
  once, from the left.
\<close>

theorem apply_diff_calls_every_handler_for_every_diff:
  assumes "\<forall>d \<in> set diffs. diff_type d \<in> {item_type_node, item_type_way, item_type_relation}"
  shows "apply_diff diffs (recording_handler k) (map recording_handler ks) [] =
           (Inr (), concat (map (\<lambda>d. map (\<lambda>j. (j, the (callback_of (diff_type d)), d)) (k # ks))
                              diffs))
         \<and> length (snd (apply_diff diffs (recording_handler k) (map recording_handler ks) [])) =
             length (k # ks) * length diffs"
proof -
  let ?log = "concat (map (\<lambda>d. map (\<lambda>j. (j, the (callback_of (diff_type d)), d)) (k # ks))
                        diffs)"
  have run: "apply_diff diffs (recording_handler k) (map recording_handler ks) [] = (Inr (), ?log)"
    using apply_diff_recording [OF assms, of k ks "[]"] by (simp only: append_Nil)
  have "length ?log = length (k # ks) * length diffs"
    by (rule length_callbacks)
  with run show ?thesis by (simp only: snd_conv simp_thms)
qed

text \<open>Two handlers and three diffs.\<close>

theorem apply_diff_calls_every_handler_for_every_diff_witness:
  "list_all (\<lambda>d. diff_type d \<in> {item_type_node, item_type_way, item_type_relation})
      [DiffObject item_type_node (1::nat) 2, DiffObject item_type_way 3 4,
       DiffObject item_type_relation 5 6]
   \<and> apply_diff [DiffObject item_type_node (1::nat) 2, DiffObject item_type_way 3 4,
                 DiffObject item_type_relation 5 6]
        (recording_handler 0) (map recording_handler [1]) [] =
      (Inr (),
       [(0, NodeCallback, DiffObject item_type_node 1 2),
        (1, NodeCallback, DiffObject item_type_node 1 2),
        (0, WayCallback, DiffObject item_type_way 3 4),
        (1, WayCallback, DiffObject item_type_way 3 4),
        (0, RelationCallback, DiffObject item_type_relation 5 6),
        (1, RelationCallback, DiffObject item_type_relation 5 6)])"
proof -
  have legal: "\<forall>d \<in> set [DiffObject item_type_node (1::nat) 2, DiffObject item_type_way 3 4,
               DiffObject item_type_relation 5 6].
       diff_type d \<in> {item_type_node, item_type_way, item_type_relation}"
    by simp
  from apply_diff_calls_every_handler_for_every_diff [OF legal, of 0 "[1]"] legal
  show ?thesis by simp
qed

subsection \<open>C7: an unknown kind is fatal\<close>

text \<open>
  C7: for a DiffObject whose kind tag is none of node, way and relation the dispatcher
  throws \<open>runtime_error("unknown type")\<close> at the first handler, with no callback made; the
  exception leaves \<open>apply_diff\<close>, so the DiffObjects after it are not dispatched. For the
  three legal tags the dispatcher calls the handler's \<open>node\<close>, \<open>way\<close> or \<open>relation\<close>
  callback on the DiffObject.
\<close>

theorem unknown_diff_type_is_fatal:
  "(diff_type d \<notin> {item_type_node, item_type_way, item_type_relation} \<longrightarrow>
      apply_diff_iterator_recurse d h rest w = (Inl (runtime_error ''unknown type''), w)
      \<and> (apply_diff dit h rest w = (Inr (), w') \<longrightarrow>
           apply_diff (dit @ d # dit') h rest w = (Inl (runtime_error ''unknown type''), w')))
   \<and> (diff_type d = item_type_node \<longrightarrow>
        apply_diff_iterator_recurse1 d h = handler_node h d)
   \<and> (diff_type d = item_type_way \<longrightarrow>
        apply_diff_iterator_recurse1 d h = handler_way h d)
   \<and> (diff_type d = item_type_relation \<longrightarrow>
        apply_diff_iterator_recurse1 d h = handler_relation h d)"
proof (intro conjI impI)
  assume u: "diff_type d \<notin> {item_type_node, item_type_way, item_type_relation}"
  show "apply_diff_iterator_recurse d h rest w = (Inl (runtime_error ''unknown type''), w)"
    using u by (rule recurse_unknown)
  assume "apply_diff dit h rest w = (Inr (), w')"
  then show "apply_diff (dit @ d # dit') h rest w = (Inl (runtime_error ''unknown type''), w')"
    by (simp add: apply_diff_append seq_apply recurse_unknown [OF u])
qed (simp_all add: apply_diff_iterator_recurse1_def)

theorem unknown_diff_type_is_fatal_witness:
  "diff_type (DiffObject (item_type_other 0) (5::nat) 6) \<notin>
      {item_type_node, item_type_way, item_type_relation}
   \<and> apply_diff [DiffObject item_type_node (1::nat) 2] (recording_handler 0)
        [recording_handler 1] [] =
      (Inr (), [(0, NodeCallback, DiffObject item_type_node 1 2),
                (1, NodeCallback, DiffObject item_type_node 1 2)])
   \<and> apply_diff ([DiffObject item_type_node (1::nat) 2] @
                 DiffObject (item_type_other 0) 5 6 # [DiffObject item_type_way 3 4])
        (recording_handler 0) [recording_handler 1] [] =
      (Inl (runtime_error ''unknown type''),
       [(0, NodeCallback, DiffObject item_type_node 1 2),
        (1, NodeCallback, DiffObject item_type_node 1 2)])
   \<and> apply_diff_iterator_recurse1 (DiffObject item_type_node (1::nat) 2) (recording_handler 0) =
       handler_node (recording_handler 0) (DiffObject item_type_node 1 2)
   \<and> apply_diff_iterator_recurse1 (DiffObject item_type_way (1::nat) 2) (recording_handler 0) =
       handler_way (recording_handler 0) (DiffObject item_type_way 1 2)
   \<and> apply_diff_iterator_recurse1 (DiffObject item_type_relation (1::nat) 2)
        (recording_handler 0) =
       handler_relation (recording_handler 0) (DiffObject item_type_relation 1 2)"
proof -
  have u: "diff_type (DiffObject (item_type_other 0) (5::nat) 6) \<notin>
      {item_type_node, item_type_way, item_type_relation}"
    by simp
  have run: "apply_diff [DiffObject item_type_node (1::nat) 2] (recording_handler 0)
        [recording_handler 1] [] =
      (Inr (), [(0, NodeCallback, DiffObject item_type_node 1 2),
                (1, NodeCallback, DiffObject item_type_node 1 2)])"
    by code_simp
  from unknown_diff_type_is_fatal
         [of "DiffObject (item_type_other 0) 5 6" "recording_handler 0" "[recording_handler 1]"
             "[]" "[DiffObject item_type_node 1 2]" _ "[DiffObject item_type_way 3 4]"]
       u run
  have 1: "apply_diff ([DiffObject item_type_node (1::nat) 2] @
                 DiffObject (item_type_other 0) 5 6 # [DiffObject item_type_way 3 4])
        (recording_handler 0) [recording_handler 1] [] =
      (Inl (runtime_error ''unknown type''),
       [(0, NodeCallback, DiffObject item_type_node 1 2),
        (1, NodeCallback, DiffObject item_type_node 1 2)])"
    by blast
  have 2: "apply_diff_iterator_recurse1 (DiffObject item_type_node (1::nat) 2)
             (recording_handler 0) =
           handler_node (recording_handler 0) (DiffObject item_type_node 1 2)"
    using unknown_diff_type_is_fatal [of "DiffObject item_type_node (1::nat) 2"] by simp
  have 3: "apply_diff_iterator_recurse1 (DiffObject item_type_way (1::nat) 2)
             (recording_handler 0) =
           handler_way (recording_handler 0) (DiffObject item_type_way 1 2)"
    using unknown_diff_type_is_fatal [of "DiffObject item_type_way (1::nat) 2"] by simp
  have 4: "apply_diff_iterator_recurse1 (DiffObject item_type_relation (1::nat) 2)
             (recording_handler 0) =
           handler_relation (recording_handler 0) (DiffObject item_type_relation 1 2)"
    using unknown_diff_type_is_fatal [of "DiffObject item_type_relation (1::nat) 2"] by simp
  from u run 1 2 3 4 show ?thesis by blast
qed

subsection \<open>C8: points\<close>

text \<open>
  C8: the three \<open>create_point\<close> overloads, for a Location, a Node and a NodeRef, return what
  the backend's \<open>make_point\<close> returns on the entity's Location, a thrown
  \<open>invalid_location\<close> as well, for every backend; with a backend whose \<open>make_point\<close> rejects
  the undefined Location, \<open>create_point\<close> on an undefined Location fails with
  \<open>invalid_location\<close> and returns no point.
\<close>

theorem create_point_delegates_to_make_point:
  "create_point G loc = make_point G loc
   \<and> create_point_node G (Node i loc) = make_point G loc
   \<and> create_point_node_ref G (NodeRef i loc) = make_point G loc
   \<and> fst (create_point recording_backend undefined_location s) = Inl invalid_location
   \<and> fst (create_point_node recording_backend (Node i undefined_location) s) =
        Inl invalid_location
   \<and> fst (create_point_node_ref recording_backend (NodeRef i undefined_location) s) =
        Inl invalid_location"
  by (simp add: create_point_def create_point_node_def create_point_node_ref_def
      rec_make_point_def)

subsection \<open>C9: an undefined Location that is visited first\<close>

text \<open>
  C9: the \<open>unique\<close> loops of \<open>create_linestring\<close> and the loop of \<open>add_points\<close> start with
  \<open>last_location\<close> undefined. A node that is visited first and has an undefined Location
  is equal to it and is skipped: the call does what it does without that node, for every
  backend, so the node's Location is not passed to the backend and no
  \<open>invalid_location\<close> is raised for it. The first node visited is the first of the
  sequence going forward and the last going backward (for a sequence within the range of
  the \<open>int\<close> index).
\<close>

theorem undefined_first_location_skipped:
  "location n = undefined_location \<longrightarrow>
     create_linestring G (n # wnl) use_nodes_unique direction_forward =
       create_linestring G wnl use_nodes_unique direction_forward
     \<and> (length wnl < 2 ^ 31 \<longrightarrow>
          create_linestring G (wnl @ [n]) use_nodes_unique direction_backward =
            create_linestring G wnl use_nodes_unique direction_backward)
     \<and> add_points G (n # nodes) = add_points G nodes
     \<and> create_linestring recording_backend [n] use_nodes_unique dir s =
          (Inr [], s\<lparr>calls := calls s @ [LinestringStart, LinestringFinish], points := []\<rparr>)"
proof (intro impI conjI)
  assume u: "location n = undefined_location"
  show "create_linestring G (n # wnl) use_nodes_unique direction_forward =
       create_linestring G wnl use_nodes_unique direction_forward"
    using u by (simp add: create_linestring_emit locations_passed_def collapsed_Cons)
  show "add_points G (n # nodes) = add_points G nodes"
    using u by (simp add: add_points_emit collapsed_Cons)
  have "locations_passed use_nodes_unique dir [n] = []"
    using u by (cases dir) (simp_all add: locations_passed_def locations_visited_backward collapsed_Cons)
  then show "create_linestring recording_backend [n] use_nodes_unique dir s =
          (Inr [], s\<lparr>calls := calls s @ [LinestringStart, LinestringFinish], points := []\<rparr>)"
    by (simp add: create_linestring_rec_ok)
next
  assume u: "location n = undefined_location" and len: "length wnl < 2 ^ 31"
  then have "length (wnl @ [n]) \<le> 2 ^ 31" and "length wnl \<le> 2 ^ 31" by simp_all
  then show "create_linestring G (wnl @ [n]) use_nodes_unique direction_backward =
            create_linestring G wnl use_nodes_unique direction_backward"
    using u by (simp only: create_linestring_emit locations_passed_def locations_visited_backward)
      (simp add: collapsed_Cons)
qed

theorem undefined_first_location_skipped_witness:
  "location (NodeRef 1 undefined_location) = undefined_location
   \<and> length [NodeRef 2 (Location 32 42), NodeRef 3 (Location 35 47)] < 2 ^ 31
   \<and> create_linestring recording_backend
        (NodeRef 1 undefined_location # [NodeRef 2 (Location 32 42), NodeRef 3 (Location 35 47)])
        use_nodes_unique direction_forward new_recorder =
      create_linestring recording_backend [NodeRef 2 (Location 32 42), NodeRef 3 (Location 35 47)]
        use_nodes_unique direction_forward new_recorder
   \<and> create_linestring recording_backend
        ([NodeRef 2 (Location 32 42),
          NodeRef 3 (Location 35 47)] @ [NodeRef 1 undefined_location])
        use_nodes_unique direction_backward new_recorder =
      create_linestring recording_backend [NodeRef 2 (Location 32 42), NodeRef 3 (Location 35 47)]
        use_nodes_unique direction_backward new_recorder
   \<and> create_linestring recording_backend [NodeRef 1 undefined_location]
        use_nodes_unique direction_forward new_recorder =
      (Inr [], \<lparr>calls = [LinestringStart, LinestringFinish], points = [], rings = []\<rparr>)"
proof -
  have u: "location (NodeRef 1 undefined_location) = undefined_location" by simp
  have len: "length [NodeRef 2 (Location 32 42), NodeRef 3 (Location 35 47)] < 2 ^ 31" by simp
  from undefined_first_location_skipped
         [of "NodeRef 1 undefined_location" recording_backend
             "[NodeRef 2 (Location 32 42),
               NodeRef 3 (Location 35 47)]" _ direction_forward new_recorder] u len
  show ?thesis by (simp add: new_recorder_def)
qed

subsection \<open>C10: items that are no rings\<close>

text \<open>
  C10: \<open>create_multipolygon\<close> passes over every item whose type is neither \<open>outer_ring\<close> nor
  \<open>inner_ring\<close>: the loop over the items does with such an item in front what it does
  without it, with the same count, so the call on an area is the call on its rings alone,
  for every backend. An area without a ring among its items fails as the area without
  items does, with \<open>geometry_error("invalid area")\<close> after \<open>multipolygon_start\<close> alone.
\<close>

theorem create_multipolygon_skips_other_items:
  "create_multipolygon G area = create_multipolygon G (filter is_ring area)
   \<and> (\<not> is_ring it \<longrightarrow>
        multipolygon_items G (it # its) num_rings = multipolygon_items G its num_rings)
   \<and> ((\<forall>it \<in> set area. \<not> is_ring it) \<longrightarrow>
        create_multipolygon G area = create_multipolygon G []
        \<and> create_multipolygon recording_backend area s =
            (Inl (geometry_error ''invalid area''),
             s\<lparr>calls := calls s @ [MultipolygonStart], rings := []\<rparr>))"
proof (intro conjI impI)
  show "create_multipolygon G area = create_multipolygon G (filter is_ring area)"
    by (rule create_multipolygon_filter)
next
  assume "\<not> is_ring it"
  then show "multipolygon_items G (it # its) num_rings = multipolygon_items G its num_rings"
    by (simp add: is_ring_def)
next
  assume "\<forall>it \<in> set area. \<not> is_ring it"
  then have e: "filter is_ring area = []" by (simp add: filter_empty_conv)
  show "create_multipolygon G area = create_multipolygon G []"
    by (subst create_multipolygon_filter) (simp only: e)
  have "create_multipolygon recording_backend area s = create_multipolygon recording_backend [] s"
    by (subst create_multipolygon_filter) (simp only: e)
  then show "create_multipolygon recording_backend area s =
            (Inl (geometry_error ''invalid area''),
             s\<lparr>calls := calls s @ [MultipolygonStart], rings := []\<rparr>)"
    by (simp add: create_multipolygon_rec ok_def)
qed

theorem create_multipolygon_skips_other_items_witness:
  "\<not> is_ring (Item (item_type_other 0) [])
   \<and> list_all (\<lambda>it. \<not> is_ring it)
         [Item (item_type_other 0) [], Item item_type_way [NodeRef 1 (Location 32 42)]]
   \<and> create_multipolygon recording_backend
        [Item (item_type_other 0) [], Item item_type_way [NodeRef 1 (Location 32 42)]] new_recorder =
      (Inl (geometry_error ''invalid area''),
       \<lparr>calls = [MultipolygonStart], points = [], rings = []\<rparr>)
   \<and> create_multipolygon recording_backend
        [Item (item_type_other 0) [], Item item_type_way [NodeRef 1 (Location 32 42)]] =
      create_multipolygon recording_backend []"
proof -
  have n: "\<not> is_ring (Item (item_type_other 0) [])" by (simp add: is_ring_def)
  have a: "\<forall>it \<in> set [Item (item_type_other 0) [], Item item_type_way [NodeRef 1 (Location 32 42)]].
         \<not> is_ring it"
    by (simp add: is_ring_def)
  note c = create_multipolygon_skips_other_items
         [of recording_backend
             "[Item (item_type_other 0) [], Item item_type_way [NodeRef 1 (Location 32 42)]]"
             "Item (item_type_other 0) []" _ _ new_recorder]
  from c a have 1: "create_multipolygon recording_backend
        [Item (item_type_other 0) [], Item item_type_way [NodeRef 1 (Location 32 42)]] =
      create_multipolygon recording_backend []"
    by blast
  from c a have "create_multipolygon recording_backend
        [Item (item_type_other 0) [], Item item_type_way [NodeRef 1 (Location 32 42)]] new_recorder =
      (Inl (geometry_error ''invalid area''),
       new_recorder\<lparr>calls := calls new_recorder @ [MultipolygonStart], rings := []\<rparr>)"
    by blast
  then have 2: "create_multipolygon recording_backend
        [Item (item_type_other 0) [], Item item_type_way [NodeRef 1 (Location 32 42)]] new_recorder =
      (Inl (geometry_error ''invalid area''),
       \<lparr>calls = [MultipolygonStart], points = [], rings = []\<rparr>)"
    by (simp add: new_recorder_def)
  from a have "list_all (\<lambda>it. \<not> is_ring it)
         [Item (item_type_other 0) [], Item item_type_way [NodeRef 1 (Location 32 42)]]"
    by simp
  with n 1 2 show ?thesis by blast
qed

end
